theory Spec2Isabelle
  imports Main "HOL-Library.Char_ord" "HOL-Library.List_Lexorder"
begin

section \<open>Python values, exceptions and text\<close>

text \<open>
  The exceptions the module can raise. \<open>NotImplementedError\<close> is the one the module raises
  itself; the others come from dictionary lookups, indexing, unpacking and the time library.
\<close>

datatype error =
    NotImplementedError
  | KeyError
  | ValueError
  | TypeError
  | IndexError
  | AttributeError

text \<open>Sequencing of computations that may raise: the first exception wins.\<close>

fun try_bind :: "error + 'a \<Rightarrow> ('a \<Rightarrow> error + 'b) \<Rightarrow> error + 'b" where
  "try_bind (Inl e) f = Inl e"
| "try_bind (Inr x) f = f x"

fun try_map :: "('a \<Rightarrow> error + 'b) \<Rightarrow> 'a list \<Rightarrow> error + 'b list" where
  "try_map f [] = Inr []"
| "try_map f (x # xs) =
     try_bind (f x) (\<lambda>y. try_bind (try_map f xs) (\<lambda>ys. Inr (y # ys)))"

text \<open>\<open>d[k]\<close> on a dictionary given as an association list.\<close>

definition getitem :: "('k \<times> 'v) list \<Rightarrow> 'k \<Rightarrow> error + 'v" where
  "getitem d k = (case map_of d k of None \<Rightarrow> Inl KeyError | Some v \<Rightarrow> Inr v)"

text \<open>\<open>str\<close> of an integer: the decimal digits, after the sign.\<close>

definition digit_char :: "nat \<Rightarrow> char" where
  "digit_char d = ''0123456789'' ! d"

function str_digits :: "int \<Rightarrow> string" where
  "str_digits n =
     (if n < 10 then [digit_char (nat n)]
      else str_digits (n div 10) @ [digit_char (nat (n mod 10))])"
  by pat_completeness auto
termination
  by (relation "measure nat") auto

declare str_digits.simps [simp del]

definition str_int :: "int \<Rightarrow> string" where
  "str_int i = (if i < 0 then CHR ''-'' # str_digits (- i) else str_digits i)"

text \<open>Zero padding on the left, as \<open>%02d\<close> and \<open>%04d\<close> do.\<close>

definition zfill :: "nat \<Rightarrow> string \<Rightarrow> string" where
  "zfill w s = replicate (w - length s) (CHR ''0'') @ s"

text \<open>
  The values a document carries in its data and metadata. The module never computes with
  them, it only prints them, so a float is given by the decimal numeral that is its
  \<open>repr\<close>: \<open>VDec m k\<close> is the float printed as \<open>m / 10 ^ k\<close> with \<open>k\<close> fractional digits
  (\<open>VDec 15 1\<close> is \<open>1.5\<close>, \<open>VDec 2 0\<close> is \<open>2.0\<close>).
\<close>

datatype pyval = VNone | VInt int | VDec int nat | VStr string

definition str_dec :: "int \<Rightarrow> nat \<Rightarrow> string" where
  "str_dec m k =
     (let a = \<bar>m\<bar>; sgn = (if m < 0 then ''-'' else [])
      in if k = 0 then sgn @ str_digits a @ ''.0''
         else sgn @ str_digits (a div 10 ^ k) @ ''.'' @ zfill k (str_digits (a mod 10 ^ k)))"

fun str_val :: "pyval \<Rightarrow> string" where
  "str_val VNone = ''None''"
| "str_val (VInt i) = str_int i"
| "str_val (VDec m k) = str_dec m k"
| "str_val (VStr s) = s"

text \<open>\<open>sep.join(xs)\<close>, which is also the template filter \<open>join(sep)\<close>.\<close>

fun join :: "string \<Rightarrow> string list \<Rightarrow> string" where
  "join sep [] = []"
| "join sep [x] = x"
| "join sep (x # y # ys) = x @ sep @ join sep (y # ys)"

section \<open>Dates and times\<close>

text \<open>
  A naive \<open>datetime\<close> object. The calendar arithmetic is the proleptic Gregorian
  calendar of Python's \<open>datetime\<close> module, ordinal 1 being 1 January of year 1.
\<close>

record datetime =
  dt_year :: int
  dt_month :: int
  dt_day :: int
  dt_hour :: int
  dt_minute :: int
  dt_second :: int
  dt_microsecond :: int

definition is_leap :: "int \<Rightarrow> bool" where
  "is_leap y = (y mod 4 = 0 \<and> (y mod 100 \<noteq> 0 \<or> y mod 400 = 0))"

definition DAYS_IN_MONTH :: "int list" where
  "DAYS_IN_MONTH = [-1, 31, 28, 31, 30, 31, 30, 31, 31, 30, 31, 30, 31]"

definition DAYS_BEFORE_MONTH :: "int list" where
  "DAYS_BEFORE_MONTH = [-1, 0, 31, 59, 90, 120, 151, 181, 212, 243, 273, 304, 334]"

definition days_in_month :: "int \<Rightarrow> int \<Rightarrow> int" where
  "days_in_month y m = (if m = 2 \<and> is_leap y then 29 else DAYS_IN_MONTH ! nat m)"

definition days_before_year :: "int \<Rightarrow> int" where
  "days_before_year y = (let z = y - 1 in z * 365 + z div 4 - z div 100 + z div 400)"

definition days_before_month :: "int \<Rightarrow> int \<Rightarrow> int" where
  "days_before_month y m = DAYS_BEFORE_MONTH ! nat m + (if m > 2 \<and> is_leap y then 1 else 0)"

definition ymd2ord :: "int \<Rightarrow> int \<Rightarrow> int \<Rightarrow> int" where
  "ymd2ord y m d = days_before_year y + days_before_month y m + d"

text \<open>\<open>datetime.weekday()\<close>: Monday is 0.\<close>

definition weekday :: "datetime \<Rightarrow> int" where
  "weekday dt = (ymd2ord (dt_year dt) (dt_month dt) (dt_day dt) + 6) mod 7"

text \<open>Ordinal to (year, month, day), step by step as the library computes it.\<close>

definition ord2ymd :: "int \<Rightarrow> int \<times> int \<times> int" where
  "ord2ymd n0 =
     (let n = n0 - 1;
          n400 = n div 146097; n = n mod 146097;
          year = n400 * 400 + 1;
          n100 = n div 36524; n = n mod 36524;
          n4 = n div 1461; n = n mod 1461;
          n1 = n div 365; n = n mod 365;
          year = year + n100 * 100 + n4 * 4 + n1
      in if n1 = 4 \<or> n100 = 4 then (year - 1, 12, 31)
         else
           let leapyear = (n1 = 3 \<and> (n4 \<noteq> 24 \<or> n100 = 3));
               month = (n + 50) div 32;
               preceding = DAYS_BEFORE_MONTH ! nat month + (if month > 2 \<and> leapyear then 1 else 0)
           in if preceding > n
              then let month = month - 1;
                       preceding = preceding
                         - (DAYS_IN_MONTH ! nat month + (if month = 2 \<and> leapyear then 1 else 0))
                   in (year, month, n - preceding + 1)
              else (year, month, n - preceding + 1))"

text \<open>
  \<open>datetime.fromtimestamp(t)\<close> for a whole number of seconds \<open>t\<close>. The local time zone
  is a parameter: \<open>tz t\<close> is the offset from UTC, in seconds, in force at the instant \<open>t\<close>.
  A year outside 1..9999 is refused.
\<close>

definition fromtimestamp :: "(int \<Rightarrow> int) \<Rightarrow> int \<Rightarrow> error + datetime" where
  "fromtimestamp tz t =
     (let s = t + tz t; days = s div 86400; r = s mod 86400;
          ymd = ord2ymd (days + 719163)
      in if fst ymd < 1 \<or> 9999 < fst ymd then Inl ValueError
         else Inr \<lparr> dt_year = fst ymd, dt_month = fst (snd ymd), dt_day = snd (snd ymd),
                    dt_hour = r div 3600, dt_minute = (r mod 3600) div 60,
                    dt_second = r mod 60, dt_microsecond = 0 \<rparr>)"

subsection \<open>The time codec\<close>

text \<open>\<open>SPEC_TIME_FORMAT = '%a %b %d %H:%M:%S %Y'\<close>, in the C locale.\<close>

definition day_abbr :: "string list" where
  "day_abbr = [''Mon'', ''Tue'', ''Wed'', ''Thu'', ''Fri'', ''Sat'', ''Sun'']"

definition month_abbr :: "string list" where
  "month_abbr = [''Jan'', ''Feb'', ''Mar'', ''Apr'', ''May'', ''Jun'',
                 ''Jul'', ''Aug'', ''Sep'', ''Oct'', ''Nov'', ''Dec'']"

definition pad2 :: "int \<Rightarrow> string" where
  "pad2 n = zfill 2 (str_digits n)"

text \<open>
  \<open>to_spec_time\<close> is \<open>strftime\<close> with the format above: abbreviated weekday and month,
  two-digit day, hour, minute and second, and the year with century on four digits.
\<close>

definition to_spec_time :: "datetime \<Rightarrow> string" where
  "to_spec_time dt =
     day_abbr ! nat (weekday dt) @ '' '' @ month_abbr ! nat (dt_month dt - 1) @ '' ''
       @ pad2 (dt_day dt) @ '' '' @ pad2 (dt_hour dt) @ '':'' @ pad2 (dt_minute dt) @ '':''
       @ pad2 (dt_second dt) @ '' '' @ zfill 4 (str_digits (dt_year dt))"

text \<open>
  \<open>from_spec_time\<close> is \<open>strptime\<close> with the same format. The library turns the format
  into a regular expression, matched from the start of the text without regard to case:
  a name of the table for \<open>%a\<close> and \<open>%b\<close>, one or more white-space characters for each
  blank of the format, one or two digits for \<open>%d\<close>, \<open>%H\<close>, \<open>%M\<close> and \<open>%S\<close> (within 1..31,
  0..23, 0..59 and 0..61), exactly four digits for \<open>%Y\<close>, and nothing left over. The
  fields then go to the \<open>datetime\<close> constructor, which checks them again. Every failure
  is a \<open>ValueError\<close>. The weekday is read and dropped.
\<close>

definition is_space :: "char \<Rightarrow> bool" where
  "is_space c = (c \<in> set [CHR '' '', CHR 0x09, CHR 0x0A, CHR 0x0B, CHR 0x0C, CHR 0x0D,
                           CHR 0x1C, CHR 0x1D, CHR 0x1E, CHR 0x1F])"

definition lower_char :: "char \<Rightarrow> char" where
  "lower_char c =
     (case map_of (zip ''ABCDEFGHIJKLMNOPQRSTUVWXYZ'' ''abcdefghijklmnopqrstuvwxyz'') c of
        None \<Rightarrow> c | Some l \<Rightarrow> l)"

definition digit_val :: "char \<Rightarrow> int option" where
  "digit_val c = map_of (zip ''0123456789'' [0, 1, 2, 3, 4, 5, 6, 7, 8, 9]) c"

fun index_of :: "'a \<Rightarrow> 'a list \<Rightarrow> nat option" where
  "index_of x [] = None"
| "index_of x (y # ys) = (if x = y then Some 0 else map_option Suc (index_of x ys))"

definition match_name :: "string list \<Rightarrow> string \<Rightarrow> (int \<times> string) option" where
  "match_name names s =
     (if length s < 3 then None
      else case index_of (map lower_char (take 3 s)) (map (map lower_char) names) of
             None \<Rightarrow> None
           | Some i \<Rightarrow> Some (int i, drop 3 s))"

definition match_spaces :: "string \<Rightarrow> string option" where
  "match_spaces s =
     (case s of [] \<Rightarrow> None
      | c # cs \<Rightarrow> if is_space c then Some (dropWhile is_space cs) else None)"

definition match_char :: "char \<Rightarrow> string \<Rightarrow> string option" where
  "match_char c s = (case s of [] \<Rightarrow> None | d # ds \<Rightarrow> if d = c then Some ds else None)"

text \<open>One or two digits, as many as there are, whose number lies within \<open>lo..hi\<close>.\<close>

fun match_num :: "int \<Rightarrow> int \<Rightarrow> string \<Rightarrow> (int \<times> string) option" where
  "match_num lo hi [] = None"
| "match_num lo hi [c] =
     (case digit_val c of None \<Rightarrow> None
      | Some a \<Rightarrow> if lo \<le> a \<and> a \<le> hi then Some (a, []) else None)"
| "match_num lo hi (c # d # s) =
     (case digit_val c of None \<Rightarrow> None
      | Some a \<Rightarrow>
         (case digit_val d of
            None \<Rightarrow> if lo \<le> a \<and> a \<le> hi then Some (a, d # s) else None
          | Some b \<Rightarrow> if lo \<le> 10 * a + b \<and> 10 * a + b \<le> hi then Some (10 * a + b, s) else None))"

definition match_year :: "string \<Rightarrow> (int \<times> string) option" where
  "match_year s =
     (case s of
        a # b # c # d # r \<Rightarrow>
          (case (digit_val a, digit_val b, digit_val c, digit_val d) of
             (Some x, Some y, Some z, Some w) \<Rightarrow> Some (1000 * x + 100 * y + 10 * z + w, r)
           | _ \<Rightarrow> None)
      | _ \<Rightarrow> None)"

definition opt_bind :: "'a option \<Rightarrow> ('a \<Rightarrow> 'b option) \<Rightarrow> 'b option" where
  "opt_bind m f = (case m of None \<Rightarrow> None | Some x \<Rightarrow> f x)"

definition strptime_fields :: "string \<Rightarrow> (int \<times> int \<times> int \<times> int \<times> int \<times> int) option" where
  "strptime_fields s0 =
     opt_bind (match_name day_abbr s0) (\<lambda>(wd, s).
     opt_bind (match_spaces s) (\<lambda>s.
     opt_bind (match_name month_abbr s) (\<lambda>(mo, s).
     opt_bind (match_spaces s) (\<lambda>s.
     opt_bind (match_num 1 31 s) (\<lambda>(d, s).
     opt_bind (match_spaces s) (\<lambda>s.
     opt_bind (match_num 0 23 s) (\<lambda>(hh, s).
     opt_bind (match_char (CHR '':'') s) (\<lambda>s.
     opt_bind (match_num 0 59 s) (\<lambda>(mi, s).
     opt_bind (match_char (CHR '':'') s) (\<lambda>s.
     opt_bind (match_num 0 61 s) (\<lambda>(ss, s).
     opt_bind (match_spaces s) (\<lambda>s.
     opt_bind (match_year s) (\<lambda>(y, s).
       if s = [] then Some (y, mo + 1, d, hh, mi, ss) else None)))))))))))))"

definition from_spec_time :: "string \<Rightarrow> error + datetime" where
  "from_spec_time string_time =
     (case strptime_fields string_time of
        None \<Rightarrow> Inl ValueError
      | Some (y, mo, d, hh, mi, ss) \<Rightarrow>
          if y < 1 \<or> d > days_in_month y mo \<or> ss > 59 then Inl ValueError
          else Inr \<lparr> dt_year = y, dt_month = mo, dt_day = d, dt_hour = hh,
                     dt_minute = mi, dt_second = ss, dt_microsecond = 0 \<rparr>)"

text \<open>
  A \<open>datetime\<close> at one-second resolution whose year has four digits: the fields are in
  their ranges and the microsecond is zero.
\<close>

definition valid_datetime :: "datetime \<Rightarrow> bool" where
  "valid_datetime dt =
     (1000 \<le> dt_year dt \<and> dt_year dt \<le> 9999
      \<and> 1 \<le> dt_month dt \<and> dt_month dt \<le> 12
      \<and> 1 \<le> dt_day dt \<and> dt_day dt \<le> days_in_month (dt_year dt) (dt_month dt)
      \<and> 0 \<le> dt_hour dt \<and> dt_hour dt < 24
      \<and> 0 \<le> dt_minute dt \<and> dt_minute dt < 60
      \<and> 0 \<le> dt_second dt \<and> dt_second dt < 60
      \<and> dt_microsecond dt = 0)"

section \<open>Documents\<close>

text \<open>
  The four kinds of document, with the keys the module reads. A key that a document may
  lack is an option: \<open>d[k]\<close> on a missing key raises \<open>KeyError\<close>, \<open>d.get(k, v)\<close> gives
  \<open>v\<close>. Dictionaries are association lists in insertion order, with distinct keys.
  Times are whole seconds since the epoch, so that \<open>int(time)\<close> is the time itself.
\<close>

record data_key =
  dk_source :: string
  dk_shape :: "nat list"
  dk_object_name :: "string option"

record plan_args =
  pa_args :: "pyval list option"
  pa_num :: "pyval option"

record start_doc =
  start_uid :: string
  start_time :: int
  start_plan_name :: "string option"
  start_scan_id :: "int option"
  start_owner :: "string option"
  start_count_time :: "pyval option"
  start_motors :: "string list option"
  start_plan_args :: "plan_args option"

record descriptor_doc =
  desc_uid :: string
  desc_name :: "string option"
  desc_data_keys :: "(string \<times> data_key) list"

record event_doc =
  event_descriptor :: string
  event_time :: int
  event_seq_num :: int
  event_data :: "(string \<times> pyval) list"

record stop_doc =
  stop_exit_status :: string
  stop_reason :: "string option"

datatype document =
    Start start_doc
  | Descriptor descriptor_doc
  | Event event_doc
  | Stop stop_doc
  | Resource
  | Datum

section \<open>The plan classifier\<close>

definition SCANS_WITHOUT_MOTORS :: "(string \<times> string) list" where
  "SCANS_WITHOUT_MOTORS = [(''ct'', ''count'')]"

definition SCANS_WITH_MOTORS :: "(string \<times> string) list" where
  "SCANS_WITH_MOTORS = [(''ascan'', ''scan''), (''dscan'', ''rel_scan'')]"

definition SPEC_SCAN_NAMES :: "(string \<times> string) list" where
  "SPEC_SCAN_NAMES = SCANS_WITHOUT_MOTORS @ SCANS_WITH_MOTORS"

definition BLUESKY_PLAN_NAMES :: "(string \<times> string) list" where
  "BLUESKY_PLAN_NAMES = map (\<lambda>(k, v). (v, k)) SPEC_SCAN_NAMES"

text \<open>\<open>k in d\<close> for a dictionary \<open>d\<close>.\<close>

definition has_key :: "('k \<times> 'v) list \<Rightarrow> 'k \<Rightarrow> bool" where
  "has_key d k = (map_of d k \<noteq> None)"

definition get_name :: "string \<Rightarrow> string" where
  "get_name plan_name =
     (case map_of BLUESKY_PLAN_NAMES plan_name of None \<Rightarrow> ''Other'' | Some n \<Rightarrow> n)"

definition get_acq_time :: "start_doc \<Rightarrow> pyval \<Rightarrow> pyval" where
  "get_acq_time start default_value =
     (let t = (case start_count_time start of None \<Rightarrow> default_value | Some v \<Rightarrow> v)
      in if t = VNone then default_value else t)"

definition get_plan_name :: "start_doc \<Rightarrow> error + string" where
  "get_plan_name start =
     (case start_plan_name start of None \<Rightarrow> Inl KeyError | Some p \<Rightarrow> Inr (get_name p))"

definition get_motor_name :: "start_doc \<Rightarrow> error + string" where
  "get_motor_name start =
     try_bind (get_plan_name start) (\<lambda>plan_name.
       if \<not> has_key SPEC_SCAN_NAMES plan_name \<or> has_key SCANS_WITHOUT_MOTORS plan_name
       then Inr ''seq_num''
       else case start_motors start of
              None \<Rightarrow> Inl KeyError
            | Some motor_name \<Rightarrow>
                if length motor_name > 1 then Inl NotImplementedError
                else (case motor_name of [] \<Rightarrow> Inl IndexError | m # _ \<Rightarrow> Inr m))"

definition get_motor_position :: "start_doc \<Rightarrow> event_doc \<Rightarrow> error + pyval" where
  "get_motor_position start event =
     try_bind (get_plan_name start) (\<lambda>plan_name.
       if \<not> has_key SPEC_SCAN_NAMES plan_name \<or> has_key SCANS_WITHOUT_MOTORS plan_name
       then Inr (VInt (event_seq_num event))
       else try_bind (get_motor_name start) (\<lambda>motor_name.
              if motor_name = ''seq_num'' then Inr (VInt (event_seq_num event))
              else getitem (event_data event) motor_name))"

section \<open>The column selector\<close>

text \<open>
  The list comprehension of \<open>_get_scan_data_column_names\<close> walks the items of
  \<open>data_keys\<close> in order and keeps the key when \<open>v['object_name'] != motor_name and not
  v['shape']\<close>; the first item without an \<open>object_name\<close> raises.
\<close>

definition field_selected :: "string \<Rightarrow> data_key \<Rightarrow> error + bool" where
  "field_selected motor_name v =
     (case dk_object_name v of
        None \<Rightarrow> Inl KeyError
      | Some obj \<Rightarrow> Inr (obj \<noteq> motor_name \<and> dk_shape v = []))"

fun select_fields :: "string \<Rightarrow> (string \<times> data_key) list \<Rightarrow> error + string list" where
  "select_fields motor_name [] = Inr []"
| "select_fields motor_name ((k, v) # kvs) =
     try_bind (field_selected motor_name v) (\<lambda>b.
     try_bind (select_fields motor_name kvs) (\<lambda>ks. Inr (if b then k # ks else ks)))"

text \<open>The primary descriptor is \<open>None\<close> until one has arrived; subscripting it then raises.\<close>

definition get_scan_data_column_names ::
  "start_doc \<Rightarrow> descriptor_doc option \<Rightarrow> error + string list" where
  "get_scan_data_column_names start primary_descriptor =
     try_bind (get_motor_name start) (\<lambda>motor_name.
       case primary_descriptor of
         None \<Rightarrow> Inl TypeError
       | Some d \<Rightarrow>
           try_bind (select_fields motor_name (desc_data_keys d)) (\<lambda>read_fields.
             Inr (sort read_fields)))"

section \<open>The line formatters\<close>

text \<open>
  Each formatter fills a dictionary \<open>md\<close> and renders a template with it. The template
  engine prints every value with \<open>str\<close> and drops the one newline that ends a template's
  text. A template is modelled as the function from \<open>md\<close> to the rendered text.
\<close>

definition DEFAULT_POSITIONERS :: "(string \<times> data_key) list" where
  "DEFAULT_POSITIONERS = []"

text \<open>\<open>os.path.basename\<close>: what follows the last slash.\<close>

definition basename :: "string \<Rightarrow> string" where
  "basename p = rev (takeWhile (\<lambda>c. c \<noteq> CHR ''/'') (rev p))"

definition nl :: string where
  "nl = [CHR 0x0A]"

record file_header_md =
  fh_owner :: string
  fh_positioner_variable_names :: "string list"
  fh_positioner_variable_sources :: "string list"
  fh_unix_time :: int
  fh_readable_time :: string
  fh_filename :: string

definition SPEC_FILE_HEADER_TEMPLATE :: "file_header_md \<Rightarrow> string" where
  "SPEC_FILE_HEADER_TEMPLATE md =
     ''#F '' @ fh_filename md @ nl
   @ ''#E '' @ str_int (fh_unix_time md) @ nl
   @ ''#D '' @ fh_readable_time md @ nl
   @ ''#C '' @ fh_owner md @ ''  User = '' @ fh_owner md @ nl
   @ ''#O0 '' @ join ''  '' (fh_positioner_variable_sources md) @ nl
   @ ''#o0 '' @ join '' '' (fh_positioner_variable_names md)"

definition file_header_md ::
  "(int \<Rightarrow> int) \<Rightarrow> start_doc \<Rightarrow> string \<Rightarrow> descriptor_doc option \<Rightarrow> error + file_header_md" where
  "file_header_md tz start filepath baseline_descriptor =
     (let data_keys = (case baseline_descriptor of
                         None \<Rightarrow> DEFAULT_POSITIONERS | Some d \<Rightarrow> desc_data_keys d);
          owner = (case start_owner start of None \<Rightarrow> [] | Some ow \<Rightarrow> ow);
          positioner_variable_names = sort (map fst data_keys)
      in try_bind (try_map (\<lambda>k. try_bind (getitem data_keys k) (\<lambda>v. Inr (dk_source v)))
                     positioner_variable_names) (\<lambda>positioner_variable_sources.
         let unix_time = start_time start
         in try_bind (fromtimestamp tz unix_time) (\<lambda>dt.
              Inr \<lparr> fh_owner = owner,
                    fh_positioner_variable_names = positioner_variable_names,
                    fh_positioner_variable_sources = positioner_variable_sources,
                    fh_unix_time = unix_time,
                    fh_readable_time = to_spec_time dt,
                    fh_filename = basename filepath \<rparr>)))"

definition to_spec_file_header ::
  "(int \<Rightarrow> int) \<Rightarrow> start_doc \<Rightarrow> string \<Rightarrow> descriptor_doc option \<Rightarrow> error + string" where
  "to_spec_file_header tz start filepath baseline_descriptor =
     try_bind (file_header_md tz start filepath baseline_descriptor) (\<lambda>md.
       Inr (SPEC_FILE_HEADER_TEMPLATE md))"

text \<open>Python's \<open>xs[-2]\<close> and \<open>xs[-1]\<close>.\<close>

definition index_from_end :: "'a list \<Rightarrow> nat \<Rightarrow> error + 'a" where
  "index_from_end xs i =
     (if 1 \<le> i \<and> i \<le> length xs then Inr (xs ! (length xs - i)) else Inl IndexError)"

definition command_args :: "start_doc \<Rightarrow> error + pyval list" where
  "command_args start =
     (case start_plan_args start of
        None \<Rightarrow> Inl KeyError
      | Some pa \<Rightarrow>
          (case pa_args pa of
             None \<Rightarrow> Inl KeyError
           | Some args \<Rightarrow>
               try_bind (index_from_end args 2) (\<lambda>start_val.
               try_bind (index_from_end args 1) (\<lambda>stop_val.
                 case pa_num pa of
                   None \<Rightarrow> Inl KeyError
                 | Some num \<Rightarrow> Inr [start_val, stop_val, num]))))"

record scan_header_md =
  sh_scan_id :: int
  sh_command :: string
  sh_readable_time :: string
  sh_acq_time :: pyval
  sh_positioner_positions :: "pyval list"
  sh_data_keys :: "string list"
  sh_num_columns :: int
  sh_motor_name :: string

definition SPEC_SCAN_HEADER_TEMPLATE :: "scan_header_md \<Rightarrow> string" where
  "SPEC_SCAN_HEADER_TEMPLATE md =
     nl @ nl
   @ ''#S '' @ str_int (sh_scan_id md) @ '' '' @ sh_command md @ nl
   @ ''#D '' @ sh_readable_time md @ nl
   @ ''#T '' @ str_val (sh_acq_time md) @ ''  (Seconds)'' @ nl
   @ ''#P0 '' @ join '' '' (map str_val (sh_positioner_positions md)) @ nl
   @ ''#N '' @ str_int (sh_num_columns md) @ nl
   @ ''#L '' @ sh_motor_name md @ ''  Epoch  Seconds  '' @ join ''  '' (sh_data_keys md)"

definition scan_header_md ::
  "(int \<Rightarrow> int) \<Rightarrow> start_doc \<Rightarrow> descriptor_doc option \<Rightarrow> event_doc option
     \<Rightarrow> error + scan_header_md" where
  "scan_header_md tz start primary_descriptor baseline_event =
     (let baseline_data = (case baseline_event of
                             None \<Rightarrow> map (\<lambda>k. (k, VInt (- 1))) (map fst DEFAULT_POSITIONERS)
                           | Some e \<Rightarrow> event_data e)
      in case start_scan_id start of
           None \<Rightarrow> Inl KeyError
         | Some scan_id \<Rightarrow>
     try_bind (get_plan_name start) (\<lambda>scan_command.
     try_bind (get_motor_name start) (\<lambda>motor_name.
     let acq_time = get_acq_time start (VInt (- 1))
     in try_bind (if \<not> has_key SPEC_SCAN_NAMES scan_command
                     \<or> has_key SCANS_WITHOUT_MOTORS scan_command
                  then Inr [] else command_args start) (\<lambda>cmd_args.
     let command_list = [VStr scan_command, VStr motor_name] @ cmd_args @ [acq_time]
     in try_bind (fromtimestamp tz (start_time start)) (\<lambda>dt.
     try_bind (get_scan_data_column_names start primary_descriptor) (\<lambda>data_keys.
     try_bind (get_motor_name start) (\<lambda>motor_name2.
       Inr \<lparr> sh_scan_id = scan_id,
             sh_command = join '' '' (map str_val command_list),
             sh_readable_time = to_spec_time dt,
             sh_acq_time = acq_time,
             sh_positioner_positions = map snd (sort_key fst baseline_data),
             sh_data_keys = data_keys,
             sh_num_columns = 3 + int (length data_keys),
             sh_motor_name = motor_name2 \<rparr>)))))))"

definition to_spec_scan_header ::
  "(int \<Rightarrow> int) \<Rightarrow> start_doc \<Rightarrow> descriptor_doc option \<Rightarrow> event_doc option \<Rightarrow> error + string" where
  "to_spec_scan_header tz start primary_descriptor baseline_event =
     try_bind (scan_header_md tz start primary_descriptor baseline_event) (\<lambda>md.
       Inr (SPEC_SCAN_HEADER_TEMPLATE md))"

record event_md =
  ev_unix_time :: int
  ev_acq_time :: pyval
  ev_motor_position :: pyval
  ev_vals :: "pyval list"

definition SPEC_EVENT_TEMPLATE :: "event_md \<Rightarrow> string" where
  "SPEC_EVENT_TEMPLATE md =
     nl @ str_val (ev_motor_position md) @ ''  '' @ str_int (ev_unix_time md) @ '' ''
        @ str_val (ev_acq_time md) @ '' '' @ join '' '' (map str_val (ev_vals md))"

definition to_spec_scan_data ::
  "start_doc \<Rightarrow> descriptor_doc option \<Rightarrow> event_doc \<Rightarrow> error + string" where
  "to_spec_scan_data start primary_descriptor event =
     (let unix_time = event_time event;
          acq_time = get_acq_time start (VInt (- 1))
      in try_bind (get_motor_position start event) (\<lambda>motor_position.
         try_bind (get_scan_data_column_names start primary_descriptor) (\<lambda>data_keys.
         try_bind (try_map (getitem (event_data event)) data_keys) (\<lambda>vals.
           Inr (SPEC_EVENT_TEMPLATE
                  \<lparr> ev_unix_time = unix_time, ev_acq_time = acq_time,
                    ev_motor_position = motor_position, ev_vals = vals \<rparr>)))))"

section \<open>The output resource\<close>

text \<open>
  The manager (\<open>suitcase.utils.MultiFileManager\<close>) is a collaborator outside this module.
  It is modelled by what the Serializer asks of it: \<open>open(label, name, 'a')\<close> fails with a
  \<open>ModeError\<close> unless append mode is allowed, records the path among the artifacts of the
  label and hands back a file positioned at the end of what the path already holds;
  \<open>write\<close> appends; \<open>tell\<close> is the position. Only the label \<open>'stream_data'\<close> is ever used.
  The manager keeps a log of every \<open>write\<close>: the path, the place in the Serializer
  the text came from, and the text.
\<close>

datatype wkind = FileHeaderW | ScanHeaderW | DataLineW | TrailerW

record manager =
  mgr_allows_append :: bool
  mgr_directory :: string
  mgr_existing :: "string \<Rightarrow> string"
  mgr_log :: "(string \<times> wkind \<times> string) list"
  mgr_artifacts :: "string list"

definition path_join :: "string \<Rightarrow> string \<Rightarrow> string" where
  "path_join d n = (if d = [] then n else d @ ''/'' @ n)"

definition mgr_open :: "manager \<Rightarrow> string \<Rightarrow> (manager \<times> string) option" where
  "mgr_open m name =
     (if \<not> mgr_allows_append m then None
      else let path = path_join (mgr_directory m) name
           in Some (m\<lparr> mgr_artifacts := mgr_artifacts m @ [path] \<rparr>, path))"

text \<open>The writes a path has received, in order, and the text it then holds.\<close>

definition mgr_written :: "manager \<Rightarrow> string \<Rightarrow> (wkind \<times> string) list" where
  "mgr_written m path = map snd (filter (\<lambda>w. fst w = path) (mgr_log m))"

definition file_text :: "manager \<Rightarrow> string \<Rightarrow> string" where
  "file_text m path = mgr_existing m path @ concat (map snd (mgr_written m path))"

definition tell :: "manager \<Rightarrow> string \<Rightarrow> nat" where
  "tell m path = length (file_text m path)"

definition mgr_write :: "manager \<Rightarrow> string \<Rightarrow> wkind \<Rightarrow> string \<Rightarrow> manager" where
  "mgr_write m path k txt = m\<lparr> mgr_log := mgr_log m @ [(path, k, txt)] \<rparr>"

text \<open>\<open>MultiFileManager(directory, allowed_modes=('a'))\<close> over what the directory holds.\<close>

definition MultiFileManager :: "string \<Rightarrow> (string \<Rightarrow> string) \<Rightarrow> manager" where
  "MultiFileManager directory existing =
     \<lparr> mgr_allows_append = True, mgr_directory = directory, mgr_existing = existing,
       mgr_log = [], mgr_artifacts = [] \<rparr>"

section \<open>The Serializer\<close>

text \<open>
  The attributes of a Serializer instance. \<open>open_file\<close> is the open file \<open>_file\<close>, by its path, once
  \<open>start\<close> has run. The attributes that no method reads (\<open>pos_names\<close>, \<open>positions\<close>,
  \<open>_templated_file_prefix\<close>) are left out. \<open>fileprefix\<close> is the file-name template \<open>file_prefix\<close> as a
  function of the start document; the default \<open>'{start[uid]}'\<close> is \<open>default_file_prefix\<close>.
  \<open>flush\<close> changes when the text reaches the disk, not the text.
\<close>

record serializer =
  fileprefix :: "start_doc \<Rightarrow> error + string"
  flush :: bool
  manager :: manager
  open_file :: "string option"
  start_of :: "start_doc option"
  baseline_descriptor :: "descriptor_doc option"
  baseline_event :: "event_doc option"
  primary_descriptor :: "descriptor_doc option"
  has_not_written_scan_header :: bool
  has_not_written_file_header :: bool
  num_events_received :: nat
  num_baseline_events_received :: nat

definition default_file_prefix :: "start_doc \<Rightarrow> error + string" where
  "default_file_prefix start = Inr (start_uid start)"

definition init :: "manager \<Rightarrow> (start_doc \<Rightarrow> error + string) \<Rightarrow> bool \<Rightarrow> serializer" where
  "init mgr prefix fl =
     \<lparr> fileprefix = prefix, flush = fl, manager = mgr, open_file = None, start_of = None,
       baseline_descriptor = None, baseline_event = None, primary_descriptor = None,
       has_not_written_scan_header = True, has_not_written_file_header = True,
       num_events_received = 0, num_baseline_events_received = 0 \<rparr>"

text \<open>
  A method returns the instance as it leaves it, and the exception it raised, if any.
\<close>

type_synonym outcome = "serializer \<times> error option"

text \<open>\<open>self._file.write(text)\<close>; \<open>self._file\<close> is \<open>None\<close> before \<open>start\<close>.\<close>

definition file_write :: "serializer \<Rightarrow> wkind \<Rightarrow> string \<Rightarrow> error + serializer" where
  "file_write st k txt =
     (case open_file st of
        None \<Rightarrow> Inl AttributeError
      | Some path \<Rightarrow> Inr (st\<lparr> manager := mgr_write (manager st) path k txt \<rparr>))"

definition start :: "serializer \<Rightarrow> start_doc \<Rightarrow> outcome" where
  "start st doc =
     (let st = st\<lparr> start_of := Some doc \<rparr>
      in case fileprefix st doc of
           Inl e \<Rightarrow> (st, Some e)
         | Inr prefix \<Rightarrow>
             (case mgr_open (manager st) (prefix @ ''.spec'') of
                None \<Rightarrow> (st, Some ValueError)
              | Some (m, path) \<Rightarrow>
                  (st\<lparr> manager := m, open_file := Some path,
                       has_not_written_file_header := (tell m path = 0) \<rparr>, None)))"

text \<open>\<open>filepath, = self._manager.artifacts['stream_data']\<close> needs exactly one artifact.\<close>

definition write_new_header :: "(int \<Rightarrow> int) \<Rightarrow> serializer \<Rightarrow> error + serializer" where
  "write_new_header tz st =
     (case mgr_artifacts (manager st) of
        [filepath] \<Rightarrow>
          (case start_of st of
             None \<Rightarrow> Inl AttributeError
           | Some s \<Rightarrow>
               try_bind (to_spec_file_header tz s filepath (baseline_descriptor st)) (\<lambda>header.
                 file_write st FileHeaderW header))
      | _ \<Rightarrow> Inl ValueError)"

definition descriptor :: "serializer \<Rightarrow> descriptor_doc \<Rightarrow> outcome" where
  "descriptor st doc =
     (if desc_name doc = Some ''baseline''
      then (st\<lparr> baseline_descriptor := Some doc \<rparr>, None)
      else if primary_descriptor st \<noteq> None
      then (st, Some NotImplementedError)
      else (st\<lparr> primary_descriptor := Some doc \<rparr>, None))"

definition is_baseline_event :: "serializer \<Rightarrow> event_doc \<Rightarrow> bool" where
  "is_baseline_event st doc =
     (case baseline_descriptor st of
        None \<Rightarrow> False
      | Some bd \<Rightarrow> event_descriptor doc = desc_uid bd)"

text \<open>The three stages of \<open>event\<close> for an event that is not a baseline event.\<close>

definition event_file_header :: "(int \<Rightarrow> int) \<Rightarrow> serializer \<Rightarrow> error + serializer" where
  "event_file_header tz st =
     (if has_not_written_file_header st
      then try_bind (write_new_header tz st) (\<lambda>st.
             Inr (st\<lparr> has_not_written_file_header := False \<rparr>))
      else Inr st)"

definition event_scan_header :: "(int \<Rightarrow> int) \<Rightarrow> serializer \<Rightarrow> error + serializer" where
  "event_scan_header tz st =
     (if has_not_written_scan_header st
      then (case start_of st of
              None \<Rightarrow> Inl TypeError
            | Some s \<Rightarrow>
                try_bind (to_spec_scan_header tz s (primary_descriptor st) (baseline_event st))
                  (\<lambda>scan_header.
                try_bind (file_write st ScanHeaderW scan_header) (\<lambda>st.
                  Inr (st\<lparr> has_not_written_scan_header := False \<rparr>))))
      else Inr st)"

definition event_data_line :: "serializer \<Rightarrow> event_doc \<Rightarrow> outcome" where
  "event_data_line st doc =
     (case primary_descriptor st of
        None \<Rightarrow> (st, Some TypeError)
      | Some pd \<Rightarrow>
          if event_descriptor doc \<noteq> desc_uid pd then (st, Some NotImplementedError)
          else
            let st = st\<lparr> num_events_received := num_events_received st + 1 \<rparr>
            in case start_of st of
                 None \<Rightarrow> (st, Some AttributeError)
               | Some s \<Rightarrow>
                   (case to_spec_scan_data s (primary_descriptor st) doc of
                      Inl e \<Rightarrow> (st, Some e)
                    | Inr scan_data_line \<Rightarrow>
                        (case file_write st DataLineW (scan_data_line @ nl) of
                           Inl e \<Rightarrow> (st, Some e)
                         | Inr st \<Rightarrow> (st, None))))"

definition event :: "(int \<Rightarrow> int) \<Rightarrow> serializer \<Rightarrow> event_doc \<Rightarrow> outcome" where
  "event tz st doc =
     (if is_baseline_event st doc
      then (st\<lparr> num_baseline_events_received := num_baseline_events_received st + 1,
                baseline_event := Some doc \<rparr>, None)
      else case event_file_header tz st of
             Inl e \<Rightarrow> (st, Some e)
           | Inr st \<Rightarrow>
               (case event_scan_header tz st of
                  Inl e \<Rightarrow> (st, Some e)
                | Inr st \<Rightarrow> event_data_line st doc))"

definition stop_message :: "stop_doc \<Rightarrow> string" where
  "stop_message doc =
     (let reason = (case stop_reason doc of None \<Rightarrow> ''No reason recorded.'' | Some r \<Rightarrow> r)
      in nl @ (if stop_exit_status doc \<noteq> ''success''
               then ''#C Run exited with status: '' @ stop_exit_status doc
                      @ ''. Reason: '' @ reason
               else []))"

definition stop :: "serializer \<Rightarrow> stop_doc \<Rightarrow> outcome" where
  "stop st doc =
     (case file_write st TrailerW (stop_message doc) of
        Inl e \<Rightarrow> (st, Some e)
      | Inr st \<Rightarrow> (st, None))"

text \<open>
  The document router: \<open>serializer(name, doc)\<close> calls the method of that name; the kinds
  the Serializer has no method for pass through. \<open>feed\<close> is the loop of \<open>export\<close>: it
  stops at the first exception.
\<close>

fun dispatch :: "(int \<Rightarrow> int) \<Rightarrow> serializer \<Rightarrow> document \<Rightarrow> outcome" where
  "dispatch tz st (Start doc) = start st doc"
| "dispatch tz st (Descriptor doc) = descriptor st doc"
| "dispatch tz st (Event doc) = event tz st doc"
| "dispatch tz st (Stop doc) = stop st doc"
| "dispatch tz st Resource = (st, None)"
| "dispatch tz st Datum = (st, None)"

fun feed :: "(int \<Rightarrow> int) \<Rightarrow> serializer \<Rightarrow> document list \<Rightarrow> outcome" where
  "feed tz st [] = (st, None)"
| "feed tz st (d # ds) =
     (case dispatch tz st d of
        (st1, Some e) \<Rightarrow> (st1, Some e)
      | (st1, None) \<Rightarrow> feed tz st1 ds)"

text \<open>What the open file has received, and how many writes of one kind a log holds.\<close>

definition written :: "serializer \<Rightarrow> (wkind \<times> string) list" where
  "written st =
     (case open_file st of None \<Rightarrow> [] | Some path \<Rightarrow> mgr_written (manager st) path)"

definition count_kind :: "wkind \<Rightarrow> (wkind \<times> string) list \<Rightarrow> nat" where
  "count_kind k ws = length (filter (\<lambda>w. fst w = k) ws)"

definition is_event :: "document \<Rightarrow> bool" where
  "is_event d = (case d of Event e \<Rightarrow> True | _ \<Rightarrow> False)"

text \<open>
  An event document of the stream whose descriptor the Serializer holds as the primary
  one, and a descriptor document that declares a baseline stream.
\<close>

definition is_primary_event :: "serializer \<Rightarrow> document \<Rightarrow> bool" where
  "is_primary_event st d =
     (case d of
        Event e \<Rightarrow>
          (case primary_descriptor st of
             None \<Rightarrow> False
           | Some pd \<Rightarrow> event_descriptor e = desc_uid pd)
      | _ \<Rightarrow> False)"

text \<open>
  The event documents of the primary stream among the documents of a run, in order, and
  the data lines a manager has written: the path and the text of each, in order.
\<close>

definition primary_events :: "serializer \<Rightarrow> document list \<Rightarrow> event_doc list" where
  "primary_events st docs =
     concat (map (\<lambda>d. case d of
                        Event e \<Rightarrow> if is_primary_event st d then [e] else []
                      | _ \<Rightarrow> []) docs)"

definition data_lines :: "manager \<Rightarrow> (string \<times> string) list" where
  "data_lines m =
     map (\<lambda>w. (fst w, snd (snd w))) (filter (\<lambda>w. fst (snd w) = DataLineW) (mgr_log m))"

definition baseline_uids :: "document list \<Rightarrow> string list" where
  "baseline_uids docs =
     concat (map (\<lambda>d. case d of
                        Descriptor bd \<Rightarrow> if desc_name bd = Some ''baseline'' then [desc_uid bd] else []
                      | _ \<Rightarrow> []) docs)"

definition primary_uid_apart :: "serializer \<Rightarrow> string list \<Rightarrow> bool" where
  "primary_uid_apart st uids =
     (case primary_descriptor st of None \<Rightarrow> True | Some pd \<Rightarrow> desc_uid pd \<notin> set uids)"

text \<open>
  What holds of the file headers at every moment of a Serializer's life: a path has
  received at most one; a path that has received one held nothing before and holds
  something now; and while the file header is still to be written, the open file held
  nothing before and has received none.
\<close>

definition file_headers :: "manager \<Rightarrow> string \<Rightarrow> nat" where
  "file_headers m p = count_kind FileHeaderW (mgr_written m p)"

definition file_header_invariant :: "serializer \<Rightarrow> bool" where
  "file_header_invariant st =
     ((\<forall>p. file_headers (manager st) p \<le> 1)
      \<and> (\<forall>p. 0 < file_headers (manager st) p \<longrightarrow>
               mgr_existing (manager st) p = [] \<and> file_text (manager st) p \<noteq> [])
      \<and> (has_not_written_file_header st \<longrightarrow>
            (\<forall>p. open_file st = Some p \<longrightarrow>
                 file_headers (manager st) p = 0 \<and> mgr_existing (manager st) p = [])))"

text \<open>
  What tells a file header from every other write: it begins with \<open>#F\<close> and a blank, and
  every other write begins with a newline.
\<close>

definition reads_as_tagged :: "string \<times> wkind \<times> string \<Rightarrow> bool" where
  "reads_as_tagged w =
     (if fst (snd w) = FileHeaderW then take 3 (snd (snd w)) = ''#F ''
      else take 1 (snd (snd w)) = nl)"

definition is_start :: "document \<Rightarrow> bool" where
  "is_start d = (case d of Start s \<Rightarrow> True | _ \<Rightarrow> False)"

section \<open>Example documents\<close>

text \<open>
  The run of the end-to-end scenario: a \<open>count\<close> plan with one scalar detector and two
  events, read in UTC, written by a Serializer with the default file prefix over an empty
  directory.
\<close>

definition utc :: "int \<Rightarrow> int" where
  "utc t = 0"

text \<open>
  A zone that puts its clocks back by an hour: four hours behind UTC until 06:00 UTC on
  28 October 2001, five hours behind from then on, as the east of North America was.
\<close>

definition eastern :: "int \<Rightarrow> int" where
  "eastern t = (if t < 1004248800 then - 14400 else - 18000)"

definition count_start :: start_doc where
  "count_start =
     \<lparr> start_uid = ''run1'', start_time = 1000000000, start_plan_name = Some ''count'',
       start_scan_id = Some 7, start_owner = None, start_count_time = None,
       start_motors = None, start_plan_args = None \<rparr>"

definition det_descriptor :: descriptor_doc where
  "det_descriptor =
     \<lparr> desc_uid = ''d-primary'', desc_name = Some ''primary'',
       desc_data_keys =
         [(''det'', \<lparr> dk_source = ''s'', dk_shape = [], dk_object_name = Some ''det'' \<rparr>)] \<rparr>"

definition det_event0 :: event_doc where
  "det_event0 =
     \<lparr> event_descriptor = ''d-primary'', event_time = 1000000001, event_seq_num = 0,
       event_data = [(''det'', VDec 15 1)] \<rparr>"

definition det_event1 :: event_doc where
  "det_event1 =
     \<lparr> event_descriptor = ''d-primary'', event_time = 1000000002, event_seq_num = 1,
       event_data = [(''det'', VDec 25 1)] \<rparr>"

definition success_stop :: stop_doc where
  "success_stop = \<lparr> stop_exit_status = ''success'', stop_reason = None \<rparr>"

definition abort_stop :: stop_doc where
  "abort_stop = \<lparr> stop_exit_status = ''abort'', stop_reason = None \<rparr>"

definition fresh :: serializer where
  "fresh = init (MultiFileManager ''out'' (\<lambda>p. [])) default_file_prefix False"

text \<open>A baseline descriptor that declares four positioners, and a second one.\<close>

definition motor_key :: "string \<Rightarrow> data_key" where
  "motor_key name = \<lparr> dk_source = ''PV:'' @ name, dk_shape = [], dk_object_name = Some name \<rparr>"

definition four_baseline :: descriptor_doc where
  "four_baseline =
     \<lparr> desc_uid = ''d-baseline'', desc_name = Some ''baseline'',
       desc_data_keys = [(''m1'', motor_key ''m1''), (''m2'', motor_key ''m2''),
                         (''m3'', motor_key ''m3''), (''m4'', motor_key ''m4'')] \<rparr>"

definition other_baseline :: descriptor_doc where
  "other_baseline =
     \<lparr> desc_uid = ''d-baseline-2'', desc_name = Some ''baseline'',
       desc_data_keys = [(''m1'', motor_key ''m1'')] \<rparr>"

text \<open>A second stream, and a scan over two motors.\<close>

definition monitor_descriptor :: descriptor_doc where
  "monitor_descriptor =
     \<lparr> desc_uid = ''d-monitor'', desc_name = Some ''monitor'', desc_data_keys = [] \<rparr>"

definition two_motor_start :: start_doc where
  "two_motor_start =
     \<lparr> start_uid = ''run2'', start_time = 1000000000, start_plan_name = Some ''scan'',
       start_scan_id = Some 8, start_owner = None, start_count_time = None,
       start_motors = Some [''m1'', ''m2''],
       start_plan_args = Some \<lparr> pa_args = Some [VStr ''m1'', VInt 0, VInt 1],
                                pa_num = Some (VInt 5) \<rparr> \<rparr>"

definition one_motor_start :: start_doc where
  "one_motor_start = two_motor_start \<lparr> start_motors := Some [''m1''] \<rparr>"

text \<open>The number of scanning variables a start document declares.\<close>

definition num_motors :: "start_doc \<Rightarrow> nat" where
  "num_motors s = (case start_motors s of None \<Rightarrow> 0 | Some ms \<Rightarrow> length ms)"

text \<open>The primary descriptor of a scan over \<open>m1\<close>: the motor's own fields, two scalar
  detectors and an image.\<close>

definition scan_descriptor :: descriptor_doc where
  "scan_descriptor =
     \<lparr> desc_uid = ''d-scan'', desc_name = Some ''primary'',
       desc_data_keys =
         [(''m1'', motor_key ''m1''),
          (''det'', \<lparr> dk_source = ''s'', dk_shape = [], dk_object_name = Some ''det'' \<rparr>),
          (''m1_setpoint'', motor_key ''m1''),
          (''img'', \<lparr> dk_source = ''cam'', dk_shape = [10, 10], dk_object_name = Some ''cam'' \<rparr>),
          (''Zeta'', \<lparr> dk_source = ''z'', dk_shape = [], dk_object_name = Some ''zeta'' \<rparr>)] \<rparr>"

text \<open>The documents of a run before its first event: with the four-positioner baseline
  descriptor declared, and without.\<close>

definition baseline_run_docs :: "document list" where
  "baseline_run_docs = [Start count_start, Descriptor four_baseline, Descriptor det_descriptor]"

definition count_run_docs :: "document list" where
  "count_run_docs = [Start count_start, Descriptor det_descriptor]"

text \<open>The scenario's requirements on its documents, whatever their other keys hold.\<close>

definition scenario_start :: "start_doc \<Rightarrow> bool" where
  "scenario_start s =
     (start_plan_name s = Some ''count'' \<and> start_scan_id s = Some 7
      \<and> start_time s = 1000000000 \<and> start_count_time s = None)"

definition scenario_descriptor :: "descriptor_doc \<Rightarrow> bool" where
  "scenario_descriptor d =
     (desc_name d = Some ''primary''
      \<and> desc_data_keys d =
          [(''det'', \<lparr> dk_source = ''s'', dk_shape = [], dk_object_name = Some ''det'' \<rparr>)])"

definition scenario_event :: "descriptor_doc \<Rightarrow> int \<Rightarrow> pyval \<Rightarrow> int \<Rightarrow> event_doc" where
  "scenario_event d n v t =
     \<lparr> event_descriptor = desc_uid d, event_time = t, event_seq_num = n,
       event_data = [(''det'', v)] \<rparr>"

definition count_scenario_docs :: "document list" where
  "count_scenario_docs =
     count_run_docs @ [Event det_event0, Event det_event1, Stop success_stop]"

text \<open>A run with a baseline reading before its two primary events.\<close>

definition baseline_reading :: event_doc where
  "baseline_reading =
     \<lparr> event_descriptor = ''d-baseline'', event_time = 1000000000, event_seq_num = 1,
       event_data = [(''m2'', VDec 25 2), (''m1'', VInt 3), (''m4'', VInt 0), (''m3'', VInt (- 7))] \<rparr>"

definition full_run_docs :: "document list" where
  "full_run_docs =
     [Start count_start, Descriptor four_baseline, Event baseline_reading,
      Descriptor det_descriptor, Event det_event0, Event det_event1, Stop success_stop]"

text \<open>A Serializer over a directory whose files already hold an earlier run, once the
  start document of the scenario has opened its file.\<close>

definition appending :: serializer where
  "appending =
     fst (start (init (MultiFileManager ''out'' (\<lambda>p. ''#F run0.spec'')) default_file_prefix False)
            count_start)"

section \<open>Basic facts\<close>

lemma try_bind_eq_Inl:
  "try_bind m f = Inl e \<longleftrightarrow> m = Inl e \<or> (\<exists>x. m = Inr x \<and> f x = Inl e)"
  by (cases m) auto

lemma try_bind_eq_Inr:
  "try_bind m f = Inr y \<longleftrightarrow> (\<exists>x. m = Inr x \<and> f x = Inr y)"
  by (cases m) auto

section \<open>Descriptors\<close>

lemma descriptor_baseline:
  "desc_name d = Some ''baseline'' \<Longrightarrow>
   descriptor st d = (st\<lparr> baseline_descriptor := Some d \<rparr>, None)"
  by (simp add: descriptor_def)

lemma descriptor_second_primary:
  "desc_name d \<noteq> Some ''baseline'' \<Longrightarrow> primary_descriptor st = Some d1 \<Longrightarrow>
   descriptor st d = (st, Some NotImplementedError)"
  by (simp add: descriptor_def)

lemma descriptor_first_primary:
  "desc_name d \<noteq> Some ''baseline'' \<Longrightarrow> primary_descriptor st = None \<Longrightarrow>
   descriptor st d = (st\<lparr> primary_descriptor := Some d \<rparr>, None)"
  by (simp add: descriptor_def)

text \<open>
  C3 (as the code has it). When two descriptors named \<open>baseline\<close> are fed one after the
  other, neither raises, and the second one received is the stored baseline descriptor:
  the last one wins.
\<close>

theorem baseline_descriptor_last_wins:
  assumes "desc_name d1 = Some ''baseline''" and "desc_name d2 = Some ''baseline''"
  shows "snd (feed tz st [Descriptor d1, Descriptor d2]) = None
       \<and> baseline_descriptor (fst (feed tz st [Descriptor d1, Descriptor d2])) = Some d2"
  using assms by (simp add: descriptor_baseline)

theorem baseline_descriptor_last_wins_witness:
  "desc_name four_baseline = Some ''baseline'' \<and> desc_name other_baseline = Some ''baseline''
   \<and> snd (feed utc fresh [Descriptor four_baseline, Descriptor other_baseline]) = None
   \<and> baseline_descriptor (fst (feed utc fresh [Descriptor four_baseline, Descriptor other_baseline]))
       = Some other_baseline"
  using baseline_descriptor_last_wins [of four_baseline other_baseline utc fresh]
  by (simp add: four_baseline_def other_baseline_def)

text \<open>
  C3 (as the claim states it) fails: after a start and the two baseline descriptors of the
  examples, no error was raised and the stored baseline descriptor is not the first one.
\<close>

theorem first_baseline_descriptor_replaced:
  "snd (feed utc fresh [Start count_start, Descriptor four_baseline, Descriptor other_baseline])
     = None
   \<and> baseline_descriptor
        (fst (feed utc fresh
                [Start count_start, Descriptor four_baseline, Descriptor other_baseline]))
       \<noteq> Some four_baseline"
  by (simp add: fresh_def init_def start_def default_file_prefix_def count_start_def mgr_open_def
    MultiFileManager_def descriptor_def four_baseline_def other_baseline_def Let_def)

section \<open>A run without events\<close>

lemma start_ok:
  assumes "mgr_allows_append (manager st)" and "fileprefix st s = Inr p"
  shows "start st s =
     (st\<lparr> start_of := Some s,
          manager := (manager st)\<lparr> mgr_artifacts := mgr_artifacts (manager st)
                        @ [path_join (mgr_directory (manager st)) (p @ ''.spec'')] \<rparr>,
          open_file := Some (path_join (mgr_directory (manager st)) (p @ ''.spec'')),
          has_not_written_file_header :=
            (tell (manager st) (path_join (mgr_directory (manager st)) (p @ ''.spec'')) = 0) \<rparr>, None)"
  using assms by (simp add: start_def mgr_open_def Let_def tell_def file_text_def mgr_written_def)

lemma stop_ok:
  assumes "open_file st = Some path"
  shows "stop st d = (st\<lparr> manager := mgr_write (manager st) path TrailerW (stop_message d) \<rparr>, None)"
  using assms by (simp add: stop_def file_write_def)

text \<open>
  C10. A fresh Serializer that is fed a start document and then directly a stop document
  opens the output, raises nothing and writes exactly one text to the opened path: the
  trailer, a newline followed by the failure comment when the exit status is not
  \<open>success\<close>. No file header and no scan header is written: those are written by
  \<open>event\<close> alone.
\<close>

theorem start_then_stop_writes_only_the_trailer:
  assumes "mgr_allows_append mgr" and "prefix s = Inr p"
  shows "snd (feed tz (init mgr prefix fl) [Start s, Stop d]) = None
    \<and> mgr_log (manager (fst (feed tz (init mgr prefix fl) [Start s, Stop d])))
        = mgr_log mgr @ [(path_join (mgr_directory mgr) (p @ ''.spec''), TrailerW,
             nl @ (if stop_exit_status d = ''success'' then []
                   else ''#C Run exited with status: '' @ stop_exit_status d @ ''. Reason: ''
                     @ (case stop_reason d of None \<Rightarrow> ''No reason recorded.'' | Some r \<Rightarrow> r)))]"
proof -
  let ?st0 = "init mgr prefix fl"
  have a: "mgr_allows_append (manager ?st0)" and b: "fileprefix ?st0 s = Inr p"
    using assms by (simp_all add: init_def)
  show ?thesis
    by (simp add: start_ok [OF a b] stop_ok mgr_write_def stop_message_def)
      (simp add: init_def)
qed

theorem start_then_stop_writes_only_the_trailer_witness:
  "mgr_allows_append (MultiFileManager ''out'' (\<lambda>p. []))
   \<and> default_file_prefix count_start = Inr ''run1''
   \<and> snd (feed utc fresh [Start count_start, Stop abort_stop]) = None
   \<and> mgr_log (manager (fst (feed utc fresh [Start count_start, Stop abort_stop])))
       = [(''out/run1.spec'', TrailerW,
           nl @ ''#C Run exited with status: abort. Reason: No reason recorded.'')]"
  using start_then_stop_writes_only_the_trailer
    [of "MultiFileManager ''out'' (\<lambda>p. [])" default_file_prefix count_start "''run1''" utc False abort_stop]
  by (simp add: fresh_def MultiFileManager_def default_file_prefix_def count_start_def
    abort_stop_def path_join_def)

section \<open>The scanning variable\<close>

lemma get_name_scan [simp]: "get_name ''scan'' = ''ascan''" "get_name ''rel_scan'' = ''dscan''"
  "get_name ''count'' = ''ct''"
  by (simp_all add: get_name_def BLUESKY_PLAN_NAMES_def SPEC_SCAN_NAMES_def
    SCANS_WITHOUT_MOTORS_def SCANS_WITH_MOTORS_def)

lemma has_key_scan_names [simp]:
  "has_key SPEC_SCAN_NAMES ''ascan''" "has_key SPEC_SCAN_NAMES ''dscan''"
  "has_key SPEC_SCAN_NAMES ''ct''"
  "\<not> has_key SCANS_WITHOUT_MOTORS ''ascan''" "\<not> has_key SCANS_WITHOUT_MOTORS ''dscan''"
  "has_key SCANS_WITHOUT_MOTORS ''ct''"
  by (simp_all add: has_key_def SPEC_SCAN_NAMES_def SCANS_WITHOUT_MOTORS_def SCANS_WITH_MOTORS_def)

lemma get_motor_name_scan:
  assumes "start_plan_name s = Some p" and "p = ''scan'' \<or> p = ''rel_scan''"
  shows "get_motor_name s =
     (case start_motors s of
        None \<Rightarrow> Inl KeyError
      | Some ms \<Rightarrow> if length ms > 1 then Inl NotImplementedError
                   else (case ms of [] \<Rightarrow> Inl IndexError | m # _ \<Rightarrow> Inr m))"
  using assms by (auto simp: get_motor_name_def get_plan_name_def)

lemma get_motor_name_raises_iff:
  assumes "start_plan_name s = Some p" and "p = ''scan'' \<or> p = ''rel_scan''"
  shows "get_motor_name s = Inl NotImplementedError \<longleftrightarrow> 1 < num_motors s"
  unfolding get_motor_name_scan [OF assms] num_motors_def
  by (auto split: option.splits list.splits)

lemma select_fields_error: "select_fields m kvs = Inl e \<Longrightarrow> e = KeyError"
  by (induction kvs) (auto simp: try_bind_eq_Inl field_selected_def split: option.splits)

lemma column_names_not_implemented:
  "get_scan_data_column_names s pd = Inl NotImplementedError \<Longrightarrow>
   get_motor_name s = Inl NotImplementedError"
  by (auto simp: get_scan_data_column_names_def try_bind_eq_Inl split: option.splits
    dest: select_fields_error)

lemma getitem_error: "getitem d k = Inl e \<Longrightarrow> e = KeyError"
  by (auto simp: getitem_def split: option.splits)

lemma command_args_error: "command_args s \<noteq> Inl NotImplementedError"
  by (auto simp: command_args_def try_bind_eq_Inl index_from_end_def
    split: option.splits if_splits)

lemma fromtimestamp_error: "fromtimestamp tz t = Inl e \<Longrightarrow> e = ValueError"
  by (auto simp: fromtimestamp_def Let_def split: if_splits)

lemma get_plan_name_error: "get_plan_name s = Inl e \<Longrightarrow> e = KeyError"
  by (auto simp: get_plan_name_def split: option.splits)

lemma scan_header_md_not_implemented:
  assumes "scan_header_md tz s pd be = Inl NotImplementedError"
  shows "get_motor_name s = Inl NotImplementedError"
  using assms command_args_error [of s]
  by (auto simp: scan_header_md_def Let_def try_bind_eq_Inl split: option.splits if_splits
    dest: get_plan_name_error fromtimestamp_error column_names_not_implemented)

lemma to_spec_scan_header_not_implemented:
  "to_spec_scan_header tz s pd be = Inl NotImplementedError \<Longrightarrow>
   get_motor_name s = Inl NotImplementedError"
  by (auto simp: to_spec_scan_header_def try_bind_eq_Inl dest: scan_header_md_not_implemented)

lemma get_motor_position_not_implemented:
  "get_motor_position s e = Inl NotImplementedError \<Longrightarrow>
   get_motor_name s = Inl NotImplementedError"
  by (auto simp: get_motor_position_def try_bind_eq_Inl split: if_splits
    dest: get_plan_name_error getitem_error)

lemma scan_header_raises_with_motor_name:
  assumes "get_motor_name s = Inl NotImplementedError" and "start_scan_id s = Some i"
  shows "to_spec_scan_header tz s pd be = Inl NotImplementedError"
proof -
  from assms(1) obtain pn where "get_plan_name s = Inr pn"
    by (auto simp: get_motor_name_def try_bind_eq_Inl dest: get_plan_name_error)
  then show ?thesis using assms
    by (simp add: to_spec_scan_header_def scan_header_md_def)
qed

lemma motor_position_raises_with_motor_name:
  assumes "start_plan_name s = Some p" and "p = ''scan'' \<or> p = ''rel_scan''"
    and "get_motor_name s = Inl NotImplementedError"
  shows "get_motor_position s e = Inl NotImplementedError"
  using assms by (auto simp: get_motor_position_def get_plan_name_def)

text \<open>
  C9. For a start document whose plan is \<open>scan\<close> or \<open>rel_scan\<close> (the absolute and the
  relative scan): when it declares more than one scanning variable, asking for the
  scanning variable's name raises \<open>NotImplementedError\<close>, and so do the motor-position
  lookup and the rendering of the scan header (once the scan id, read first, is there);
  when it declares none or one, none of the three raises \<open>NotImplementedError\<close>.
\<close>

theorem several_motors_not_supported:
  assumes "start_plan_name s = Some p" and "p = ''scan'' \<or> p = ''rel_scan''"
  shows "(1 < num_motors s \<longrightarrow>
            get_motor_name s = Inl NotImplementedError
          \<and> get_motor_position s e = Inl NotImplementedError
          \<and> (start_scan_id s \<noteq> None \<longrightarrow>
               to_spec_scan_header tz s pd be = Inl NotImplementedError))
       \<and> (num_motors s \<le> 1 \<longrightarrow>
            get_motor_name s \<noteq> Inl NotImplementedError
          \<and> get_motor_position s e \<noteq> Inl NotImplementedError
          \<and> to_spec_scan_header tz s pd be \<noteq> Inl NotImplementedError)"
proof -
  note iff = get_motor_name_raises_iff [OF assms]
  show ?thesis
  proof (cases "1 < num_motors s")
    case True
    then have r: "get_motor_name s = Inl NotImplementedError" by (simp add: iff)
    show ?thesis
      using True r motor_position_raises_with_motor_name [OF assms r]
        scan_header_raises_with_motor_name [OF r]
      by auto
  next
    case False
    then have r: "get_motor_name s \<noteq> Inl NotImplementedError" by (simp add: iff)
    show ?thesis
      using False r get_motor_position_not_implemented to_spec_scan_header_not_implemented
      by auto
  qed
qed

theorem several_motors_not_supported_witness:
  "start_plan_name two_motor_start = Some ''scan''
   \<and> 1 < num_motors two_motor_start
   \<and> get_motor_name two_motor_start = Inl NotImplementedError
   \<and> get_motor_position two_motor_start det_event0 = Inl NotImplementedError
   \<and> start_scan_id two_motor_start \<noteq> None
   \<and> to_spec_scan_header utc two_motor_start (Some det_descriptor) None = Inl NotImplementedError
   \<and> start_plan_name one_motor_start = Some ''scan''
   \<and> num_motors one_motor_start \<le> 1
   \<and> get_motor_name one_motor_start \<noteq> Inl NotImplementedError
   \<and> get_motor_position one_motor_start det_event0 \<noteq> Inl NotImplementedError
   \<and> to_spec_scan_header utc one_motor_start (Some det_descriptor) None \<noteq> Inl NotImplementedError"
  using several_motors_not_supported [of two_motor_start "''scan''" det_event0 utc "Some det_descriptor" None]
    several_motors_not_supported [of one_motor_start "''scan''" det_event0 utc "Some det_descriptor" None]
  by (simp add: two_motor_start_def one_motor_start_def num_motors_def)

section \<open>What the event method leaves alone\<close>

lemma file_write_fields:
  assumes "file_write st k txt = Inr st1"
  shows "start_of st1 = start_of st" "primary_descriptor st1 = primary_descriptor st"
    "baseline_descriptor st1 = baseline_descriptor st" "baseline_event st1 = baseline_event st"
    "open_file st1 = open_file st" "fileprefix st1 = fileprefix st"
    "has_not_written_file_header st1 = has_not_written_file_header st"
    "has_not_written_scan_header st1 = has_not_written_scan_header st"
    "num_events_received st1 = num_events_received st"
    "num_baseline_events_received st1 = num_baseline_events_received st"
  using assms by (auto simp: file_write_def split: option.splits)

lemma event_file_header_fields:
  assumes "event_file_header tz st = Inr st1"
  shows "start_of st1 = start_of st" "primary_descriptor st1 = primary_descriptor st"
    "baseline_descriptor st1 = baseline_descriptor st" "baseline_event st1 = baseline_event st"
    "open_file st1 = open_file st" "fileprefix st1 = fileprefix st"
    "has_not_written_scan_header st1 = has_not_written_scan_header st"
    "num_events_received st1 = num_events_received st"
    "num_baseline_events_received st1 = num_baseline_events_received st"
    "\<not> has_not_written_file_header st1"
  using assms
  by (auto simp: event_file_header_def write_new_header_def try_bind_eq_Inr
    split: if_splits list.splits option.splits dest: file_write_fields)

lemma event_scan_header_fields:
  assumes "event_scan_header tz st = Inr st1"
  shows "start_of st1 = start_of st" "primary_descriptor st1 = primary_descriptor st"
    "baseline_descriptor st1 = baseline_descriptor st" "baseline_event st1 = baseline_event st"
    "open_file st1 = open_file st" "fileprefix st1 = fileprefix st"
    "has_not_written_file_header st1 = has_not_written_file_header st"
    "num_events_received st1 = num_events_received st"
    "num_baseline_events_received st1 = num_baseline_events_received st"
    "\<not> has_not_written_scan_header st1"
  using assms
  by (auto simp: event_scan_header_def try_bind_eq_Inr
    split: if_splits option.splits dest: file_write_fields)

lemma event_data_line_fields:
  assumes "event_data_line st e = (st1, r)"
  shows "start_of st1 = start_of st" "primary_descriptor st1 = primary_descriptor st"
    "baseline_descriptor st1 = baseline_descriptor st" "baseline_event st1 = baseline_event st"
    "open_file st1 = open_file st" "fileprefix st1 = fileprefix st"
    "has_not_written_file_header st1 = has_not_written_file_header st"
    "has_not_written_scan_header st1 = has_not_written_scan_header st"
    "num_baseline_events_received st1 = num_baseline_events_received st"
  using assms
  by (auto simp: event_data_line_def Let_def
    split: if_splits option.splits sum.splits dest: file_write_fields)

lemma event_keeps_documents:
  "start_of (fst (event tz st e)) = start_of st
   \<and> primary_descriptor (fst (event tz st e)) = primary_descriptor st"
proof (cases "is_baseline_event st e")
  case True
  then show ?thesis by (simp add: event_def)
next
  case False
  show ?thesis
  proof (cases "event_file_header tz st")
    case (Inl err)
    then show ?thesis using False by (simp add: event_def)
  next
    case (Inr st1)
    note a = event_file_header_fields [OF Inr]
    show ?thesis
    proof (cases "event_scan_header tz st1")
      case (Inl err)
      then show ?thesis using False Inr a by (simp add: event_def)
    next
      case b: (Inr st2)
      note c = event_scan_header_fields [OF b]
      obtain st3 r where d: "event_data_line st2 e = (st3, r)"
        by (cases "event_data_line st2 e")
      show ?thesis
        using False Inr b d a(1,2) c(1,2) event_data_line_fields(1,2) [OF d]
        by (simp add: event_def)
    qed
  qed
qed

lemma feed_events_keep_documents:
  "start_of (fst (feed tz st (map Event es))) = start_of st
   \<and> primary_descriptor (fst (feed tz st (map Event es))) = primary_descriptor st"
proof (induction es arbitrary: st)
  case Nil
  show ?case by simp
next
  case (Cons e es)
  obtain st1 r where step: "event tz st e = (st1, r)" by (cases "event tz st e")
  have keep: "start_of st1 = start_of st \<and> primary_descriptor st1 = primary_descriptor st"
    using event_keeps_documents [of tz st e] step by simp
  show ?case
  proof (cases r)
    case None
    then show ?thesis using step keep Cons.IH [of st1] by simp
  next
    case (Some err)
    then show ?thesis using step keep by simp
  qed
qed

lemma file_write_manager:
  assumes "file_write st k txt = Inr st1"
  shows "\<exists>path. open_file st = Some path \<and> manager st1 = mgr_write (manager st) path k txt"
  using assms by (auto simp: file_write_def split: option.splits)

lemma event_file_header_cases:
  assumes "event_file_header tz st = Inr st1"
  shows "(\<not> has_not_written_file_header st \<and> st1 = st)
       \<or> (has_not_written_file_header st
          \<and> (\<exists>path filepath s md.
                open_file st = Some path \<and> mgr_artifacts (manager st) = [filepath]
              \<and> start_of st = Some s
              \<and> file_header_md tz s filepath (baseline_descriptor st) = Inr md
              \<and> manager st1 = mgr_write (manager st) path FileHeaderW
                                 (SPEC_FILE_HEADER_TEMPLATE md)))"
proof (cases "has_not_written_file_header st")
  case False
  then show ?thesis using assms by (simp add: event_file_header_def)
next
  case True
  then obtain st0 where w: "write_new_header tz st = Inr st0"
    and st1: "st1 = st0\<lparr> has_not_written_file_header := False \<rparr>"
    using assms by (auto simp: event_file_header_def try_bind_eq_Inr)
  from w obtain filepath s header where a: "mgr_artifacts (manager st) = [filepath]"
    and s: "start_of st = Some s"
    and h: "to_spec_file_header tz s filepath (baseline_descriptor st) = Inr header"
    and fw: "file_write st FileHeaderW header = Inr st0"
    by (auto simp: write_new_header_def try_bind_eq_Inr split: list.splits option.splits)
  from h obtain md where md: "file_header_md tz s filepath (baseline_descriptor st) = Inr md"
    and header: "header = SPEC_FILE_HEADER_TEMPLATE md"
    by (auto simp: to_spec_file_header_def try_bind_eq_Inr)
  from file_write_manager [OF fw] obtain path where "open_file st = Some path"
    "manager st0 = mgr_write (manager st) path FileHeaderW header" by blast
  then show ?thesis using True a s md header st1 by auto
qed

lemma event_scan_header_cases:
  assumes "event_scan_header tz st = Inr st1"
  shows "(\<not> has_not_written_scan_header st \<and> st1 = st)
       \<or> (has_not_written_scan_header st
          \<and> (\<exists>path s md.
                open_file st = Some path \<and> start_of st = Some s
              \<and> scan_header_md tz s (primary_descriptor st) (baseline_event st) = Inr md
              \<and> manager st1 = mgr_write (manager st) path ScanHeaderW
                                 (SPEC_SCAN_HEADER_TEMPLATE md)))"
proof (cases "has_not_written_scan_header st")
  case False
  then show ?thesis using assms by (simp add: event_scan_header_def)
next
  case True
  then obtain s header st0 where s: "start_of st = Some s"
    and h: "to_spec_scan_header tz s (primary_descriptor st) (baseline_event st) = Inr header"
    and fw: "file_write st ScanHeaderW header = Inr st0"
    and st1: "st1 = st0\<lparr> has_not_written_scan_header := False \<rparr>"
    using assms by (auto simp: event_scan_header_def try_bind_eq_Inr split: option.splits)
  from h obtain md
    where md: "scan_header_md tz s (primary_descriptor st) (baseline_event st) = Inr md"
    and header: "header = SPEC_SCAN_HEADER_TEMPLATE md"
    by (auto simp: to_spec_scan_header_def try_bind_eq_Inr)
  from file_write_manager [OF fw] obtain path where "open_file st = Some path"
    "manager st0 = mgr_write (manager st) path ScanHeaderW header" by blast
  then show ?thesis using True s md header st1 by auto
qed

lemma event_data_line_ok:
  assumes "event_data_line st e = (st1, None)"
  shows "\<exists>pd s line path.
           primary_descriptor st = Some pd \<and> event_descriptor e = desc_uid pd
         \<and> start_of st = Some s \<and> to_spec_scan_data s (Some pd) e = Inr line
         \<and> open_file st = Some path
         \<and> manager st1 = mgr_write (manager st) path DataLineW (line @ nl)
         \<and> num_events_received st1 = num_events_received st + 1"
  using assms
  by (auto simp: event_data_line_def Let_def file_write_def
    split: option.splits if_splits sum.splits)

lemma event_data_line_raised:
  assumes "event_data_line st e = (st1, Some err)"
  shows "manager st1 = manager st"
  using assms
  by (auto simp: event_data_line_def Let_def file_write_def
    split: option.splits if_splits sum.splits)

lemma event_primary_steps:
  assumes "event tz st e = (st', r)" and "\<not> is_baseline_event st e"
  shows "(\<exists>err. event_file_header tz st = Inl err \<and> st' = st \<and> r = Some err)
       \<or> (\<exists>st1 err. event_file_header tz st = Inr st1 \<and> event_scan_header tz st1 = Inl err
             \<and> st' = st1 \<and> r = Some err)
       \<or> (\<exists>st1 st2. event_file_header tz st = Inr st1 \<and> event_scan_header tz st1 = Inr st2
             \<and> event_data_line st2 e = (st', r))"
  using assms by (auto simp: event_def split: sum.splits)

lemma event_baseline:
  assumes "is_baseline_event st e"
  shows "event tz st e =
     (st\<lparr> num_baseline_events_received := num_baseline_events_received st + 1,
          baseline_event := Some e \<rparr>, None)"
  using assms by (simp add: event_def)

lemma start_fields:
  assumes "start st s = (st1, r)"
  shows "baseline_event st1 = baseline_event st"
    "baseline_descriptor st1 = baseline_descriptor st"
    "primary_descriptor st1 = primary_descriptor st"
    "has_not_written_scan_header st1 = has_not_written_scan_header st"
    "num_events_received st1 = num_events_received st"
    "num_baseline_events_received st1 = num_baseline_events_received st"
    "mgr_log (manager st1) = mgr_log (manager st)"
    "mgr_existing (manager st1) = mgr_existing (manager st)"
  using assms
  by (auto simp: start_def Let_def mgr_open_def split: sum.splits option.splits if_splits)

lemma descriptor_fields:
  assumes "descriptor st d = (st1, r)"
  shows "baseline_event st1 = baseline_event st"
    "start_of st1 = start_of st"
    "open_file st1 = open_file st"
    "has_not_written_scan_header st1 = has_not_written_scan_header st"
    "has_not_written_file_header st1 = has_not_written_file_header st"
    "num_events_received st1 = num_events_received st"
    "num_baseline_events_received st1 = num_baseline_events_received st"
    "manager st1 = manager st"
  using assms by (auto simp: descriptor_def split: if_splits)

lemma stop_fields:
  assumes "stop st d = (st1, r)"
  shows "baseline_event st1 = baseline_event st"
    "baseline_descriptor st1 = baseline_descriptor st"
    "primary_descriptor st1 = primary_descriptor st"
    "start_of st1 = start_of st"
    "open_file st1 = open_file st"
    "has_not_written_scan_header st1 = has_not_written_scan_header st"
    "has_not_written_file_header st1 = has_not_written_file_header st"
    "num_events_received st1 = num_events_received st"
    "num_baseline_events_received st1 = num_baseline_events_received st"
  using assms by (auto simp: stop_def file_write_def split: sum.splits option.splits)

lemma stop_log:
  assumes "stop st d = (st1, r)"
  shows "mgr_log (manager st1) = mgr_log (manager st)
       \<or> (\<exists>path. open_file st = Some path
            \<and> mgr_log (manager st1) = mgr_log (manager st) @ [(path, TrailerW, stop_message d)])"
  using assms by (auto simp: stop_def file_write_def mgr_write_def split: sum.splits option.splits)

lemma dispatch_non_event:
  assumes "\<not> is_event d" and "dispatch tz st d = (st1, r)"
  shows "baseline_event st1 = baseline_event st"
    "has_not_written_scan_header st1 = has_not_written_scan_header st"
    "num_events_received st1 = num_events_received st"
    "num_baseline_events_received st1 = num_baseline_events_received st"
    "filter (\<lambda>w. fst (snd w) \<noteq> TrailerW) (mgr_log (manager st1))
       = filter (\<lambda>w. fst (snd w) \<noteq> TrailerW) (mgr_log (manager st))"
proof -
  show "baseline_event st1 = baseline_event st"
    using assms by (cases d) (auto simp: is_event_def dest: start_fields descriptor_fields stop_fields)
  show "has_not_written_scan_header st1 = has_not_written_scan_header st"
    using assms by (cases d) (auto simp: is_event_def dest: start_fields descriptor_fields stop_fields)
  show "num_events_received st1 = num_events_received st"
    using assms by (cases d) (auto simp: is_event_def dest: start_fields descriptor_fields stop_fields)
  show "num_baseline_events_received st1 = num_baseline_events_received st"
    using assms by (cases d) (auto simp: is_event_def dest: start_fields descriptor_fields stop_fields)
  show "filter (\<lambda>w. fst (snd w) \<noteq> TrailerW) (mgr_log (manager st1))
       = filter (\<lambda>w. fst (snd w) \<noteq> TrailerW) (mgr_log (manager st))"
  proof (cases d)
    case (Stop sd)
    then show ?thesis using assms stop_log [of st sd st1 r] by auto
  qed (use assms in \<open>auto simp: is_event_def dest: start_fields descriptor_fields\<close>)
qed

lemma feed_non_events:
  assumes "\<forall>d \<in> set docs. \<not> is_event d" and "feed tz st docs = (st1, r)"
  shows "baseline_event st1 = baseline_event st
       \<and> has_not_written_scan_header st1 = has_not_written_scan_header st
       \<and> num_events_received st1 = num_events_received st
       \<and> num_baseline_events_received st1 = num_baseline_events_received st
       \<and> filter (\<lambda>w. fst (snd w) \<noteq> TrailerW) (mgr_log (manager st1))
           = filter (\<lambda>w. fst (snd w) \<noteq> TrailerW) (mgr_log (manager st))"
  using assms
proof (induction docs arbitrary: st)
  case Nil
  then show ?case by simp
next
  case (Cons d ds)
  obtain st2 r2 where step: "dispatch tz st d = (st2, r2)" by (cases "dispatch tz st d")
  have ne: "\<not> is_event d" using Cons.prems(1) by simp
  note keep = dispatch_non_event [OF ne step]
  show ?case
  proof (cases r2)
    case None
    then have "feed tz st2 ds = (st1, r)" using Cons.prems(2) step by simp
    from Cons.IH [OF _ this] Cons.prems(1) keep show ?thesis by simp
  next
    case (Some err)
    then have "st1 = st2" using Cons.prems(2) step by simp
    then show ?thesis using keep by simp
  qed
qed

lemma init_fields:
  "baseline_event (init mgr prefix fl) = None"
  "has_not_written_scan_header (init mgr prefix fl)"
  "has_not_written_file_header (init mgr prefix fl)"
  "num_events_received (init mgr prefix fl) = 0"
  "num_baseline_events_received (init mgr prefix fl) = 0"
  "manager (init mgr prefix fl) = mgr"
  "open_file (init mgr prefix fl) = None"
  "primary_descriptor (init mgr prefix fl) = None"
  "baseline_descriptor (init mgr prefix fl) = None"
  by (simp_all add: init_def)

lemma feed_append:
  "feed tz st (xs @ ys) =
     (case feed tz st xs of (st1, None) \<Rightarrow> feed tz st1 ys | (st1, Some e) \<Rightarrow> (st1, Some e))"
proof (induction xs arbitrary: st)
  case Nil
  show ?case by simp
next
  case (Cons x xs)
  obtain st2 r where step: "dispatch tz st x = (st2, r)" by (cases "dispatch tz st x")
  show ?case using step Cons.IH [of st2] by (cases r) simp_all
qed

lemma count_kind_log:
  "k \<noteq> TrailerW \<Longrightarrow>
   count_kind k (map snd zs)
     = length (filter (\<lambda>w. fst (snd w) = k) (filter (\<lambda>w. fst (snd w) \<noteq> TrailerW) zs))"
  by (simp add: count_kind_def filter_map comp_def conj_commute cong: conj_cong)

lemma count_kind_without_trailers:
  assumes "filter (\<lambda>w. fst (snd w) \<noteq> TrailerW) xs = filter (\<lambda>w. fst (snd w) \<noteq> TrailerW) ys"
    and "k \<noteq> TrailerW"
  shows "count_kind k (map snd xs) = count_kind k (map snd ys)"
  by (simp only: count_kind_log [OF assms(2)] assms(1))

lemma event_file_header_log:
  assumes "event_file_header tz st = Inr st1" and "open_file st = Some path"
  shows "\<exists>fhs. mgr_log (manager st1) = mgr_log (manager st) @ fhs
          \<and> (if has_not_written_file_header st
               then \<exists>md. fhs = [(path, FileHeaderW, SPEC_FILE_HEADER_TEMPLATE md)]
               else fhs = [])"
proof (cases "has_not_written_file_header st")
  case False
  then show ?thesis using event_file_header_cases [OF assms(1)] by simp
next
  case True
  with event_file_header_cases [OF assms(1)] assms(2) obtain md where
    "manager st1 = mgr_write (manager st) path FileHeaderW (SPEC_FILE_HEADER_TEMPLATE md)"
    by auto
  then show ?thesis using True
    by (intro exI [of _ "[(path, FileHeaderW, SPEC_FILE_HEADER_TEMPLATE md)]"])
      (auto simp: mgr_write_def)
qed

lemma event_scan_header_log:
  assumes "event_scan_header tz st = Inr st1" and "open_file st = Some path"
  shows "\<exists>shs. mgr_log (manager st1) = mgr_log (manager st) @ shs
          \<and> (if has_not_written_scan_header st
               then \<exists>md. shs = [(path, ScanHeaderW, SPEC_SCAN_HEADER_TEMPLATE md)]
               else shs = [])"
proof (cases "has_not_written_scan_header st")
  case False
  then show ?thesis using event_scan_header_cases [OF assms(1)] by simp
next
  case True
  with event_scan_header_cases [OF assms(1)] assms(2) obtain md where
    "manager st1 = mgr_write (manager st) path ScanHeaderW (SPEC_SCAN_HEADER_TEMPLATE md)"
    by auto
  then show ?thesis using True
    by (intro exI [of _ "[(path, ScanHeaderW, SPEC_SCAN_HEADER_TEMPLATE md)]"])
      (auto simp: mgr_write_def)
qed

lemma event_primary_log:
  assumes "event tz st e = (st', None)" and "\<not> is_baseline_event st e"
  shows "\<exists>path fh sh dl pd.
           open_file st = Some path
         \<and> mgr_log (manager st') = mgr_log (manager st) @ fh @ sh @ [(path, DataLineW, dl)]
         \<and> (if has_not_written_file_header st
             then \<exists>md. fh = [(path, FileHeaderW, SPEC_FILE_HEADER_TEMPLATE md)] else fh = [])
         \<and> (if has_not_written_scan_header st
             then \<exists>md. sh = [(path, ScanHeaderW, SPEC_SCAN_HEADER_TEMPLATE md)]
             else sh = [])
         \<and> primary_descriptor st = Some pd \<and> event_descriptor e = desc_uid pd
         \<and> primary_descriptor st' = Some pd
         \<and> baseline_descriptor st' = baseline_descriptor st
         \<and> num_events_received st' = num_events_received st + 1
         \<and> num_baseline_events_received st' = num_baseline_events_received st"
proof -
  from event_primary_steps [OF assms]
  obtain st1 st2 where fh: "event_file_header tz st = Inr st1"
    and sh: "event_scan_header tz st1 = Inr st2"
    and dl: "event_data_line st2 e = (st', None)"
    by auto
  note f1 = event_file_header_fields [OF fh]
  note f2 = event_scan_header_fields [OF sh]
  note f3 = event_data_line_fields [OF dl]
  from event_data_line_ok [OF dl]
  obtain pd line path where pd: "primary_descriptor st2 = Some pd"
    "event_descriptor e = desc_uid pd" and p: "open_file st2 = Some path"
    and m3: "manager st' = mgr_write (manager st2) path DataLineW (line @ nl)"
    and n3: "num_events_received st' = num_events_received st2 + 1"
    by blast
  have p0: "open_file st = Some path" "open_file st1 = Some path"
    using p f1 f2 by simp_all
  from event_file_header_log [OF fh p0(1)]
  obtain fhs where l1: "mgr_log (manager st1) = mgr_log (manager st) @ fhs"
    and k1: "if has_not_written_file_header st
             then \<exists>md. fhs = [(path, FileHeaderW, SPEC_FILE_HEADER_TEMPLATE md)] else fhs = []"
    by blast
  from event_scan_header_log [OF sh p0(2)]
  obtain shs where l2: "mgr_log (manager st2) = mgr_log (manager st1) @ shs"
    and k2: "if has_not_written_scan_header st1
             then \<exists>md. shs = [(path, ScanHeaderW, SPEC_SCAN_HEADER_TEMPLATE md)] else shs = []"
    by blast
  have log: "mgr_log (manager st') = mgr_log (manager st) @ fhs @ shs @ [(path, DataLineW, line @ nl)]"
    using l1 l2 m3 by (simp add: mgr_write_def)
  have k2': "if has_not_written_scan_header st
             then \<exists>md. shs = [(path, ScanHeaderW, SPEC_SCAN_HEADER_TEMPLATE md)]
             else shs = []"
    using k2 f1 by simp
  have rest: "primary_descriptor st = Some pd" "primary_descriptor st' = Some pd"
    "baseline_descriptor st' = baseline_descriptor st"
    "num_events_received st' = num_events_received st + 1"
    "num_baseline_events_received st' = num_baseline_events_received st"
    using pd n3 f1 f2 f3 by simp_all
  show ?thesis
    using p0(1) log k1 k2' rest pd(2) by blast
qed

lemma dispatch_primary_kept:
  assumes "dispatch tz st d = (st1, r)" and "primary_descriptor st = Some pd"
  shows "primary_descriptor st1 = Some pd"
proof (cases d)
  case (Event e)
  then show ?thesis using assms event_keeps_documents [of tz st e] by simp
next
  case (Descriptor dd)
  then show ?thesis using assms by (auto simp: descriptor_def split: if_splits)
qed (use assms in \<open>auto dest: start_fields stop_fields\<close>)

lemma feed_primary_kept:
  assumes "feed tz st docs = (st1, r)" and "primary_descriptor st = Some pd"
  shows "primary_descriptor st1 = Some pd"
  using assms
proof (induction docs arbitrary: st)
  case Nil
  then show ?case by simp
next
  case (Cons d ds)
  obtain st2 r2 where step: "dispatch tz st d = (st2, r2)" by (cases "dispatch tz st d")
  note k = dispatch_primary_kept [OF step Cons.prems(2)]
  show ?case
  proof (cases r2)
    case None
    then have "feed tz st2 ds = (st1, r)" using Cons.prems(1) step by simp
    from Cons.IH [OF this k] show ?thesis .
  next
    case (Some err)
    then show ?thesis using Cons.prems(1) step k by simp
  qed
qed

lemma count_kind_append [simp]:
  "count_kind k (xs @ ys) = count_kind k xs + count_kind k ys"
  by (simp add: count_kind_def)

lemma count_kind_simps [simp]:
  "count_kind k [] = 0"
  "count_kind k ((k', t) # ws) = (if k' = k then 1 else 0) + count_kind k ws"
  by (simp_all add: count_kind_def)

section \<open>What a primary event writes\<close>

lemma to_spec_scan_data_text:
  assumes "to_spec_scan_data s pd e = Inr line"
  shows "\<exists>pos cols vals.
           get_motor_position s e = Inr pos
         \<and> get_scan_data_column_names s pd = Inr cols
         \<and> try_map (getitem (event_data e)) cols = Inr vals
         \<and> line = nl @ str_val pos @ ''  '' @ str_int (event_time e) @ '' ''
                    @ str_val (get_acq_time s (VInt (- 1))) @ '' ''
                    @ join '' '' (map str_val vals)"
  using assms
  by (auto simp: to_spec_scan_data_def Let_def try_bind_eq_Inr SPEC_EVENT_TEMPLATE_def)

lemma event_primary_written:
  assumes "event tz st e = (st', None)" and "\<not> is_baseline_event st e"
  shows "\<exists>path s pd line fh sh.
           open_file st = Some path \<and> start_of st = Some s \<and> primary_descriptor st = Some pd
         \<and> event_descriptor e = desc_uid pd
         \<and> to_spec_scan_data s (Some pd) e = Inr line
         \<and> mgr_log (manager st')
             = mgr_log (manager st) @ fh @ sh @ [(path, DataLineW, line @ nl)]
         \<and> (if has_not_written_file_header st
             then \<exists>filepath md.
                    mgr_artifacts (manager st) = [filepath]
                  \<and> file_header_md tz s filepath (baseline_descriptor st) = Inr md
                  \<and> fh = [(path, FileHeaderW, SPEC_FILE_HEADER_TEMPLATE md)]
             else fh = [])
         \<and> (if has_not_written_scan_header st
             then \<exists>md. scan_header_md tz s (Some pd) (baseline_event st) = Inr md
                      \<and> sh = [(path, ScanHeaderW, SPEC_SCAN_HEADER_TEMPLATE md)]
             else sh = [])"
proof -
  from event_primary_steps [OF assms]
  obtain st1 st2 where fh: "event_file_header tz st = Inr st1"
    and sh: "event_scan_header tz st1 = Inr st2"
    and dl: "event_data_line st2 e = (st', None)"
    by auto
  note f1 = event_file_header_fields [OF fh]
  note f2 = event_scan_header_fields [OF sh]
  from event_data_line_ok [OF dl]
  obtain pd s line path where pd: "primary_descriptor st2 = Some pd"
    "event_descriptor e = desc_uid pd" and s: "start_of st2 = Some s"
    and line: "to_spec_scan_data s (Some pd) e = Inr line"
    and p: "open_file st2 = Some path"
    and m3: "manager st' = mgr_write (manager st2) path DataLineW (line @ nl)"
    by blast
  have p0: "open_file st = Some path" "open_file st1 = Some path"
    and s0: "start_of st = Some s" "start_of st1 = Some s"
    and pd0: "primary_descriptor st = Some pd" "primary_descriptor st1 = Some pd"
    using p s pd(1) f1 f2 by simp_all
  have "\<exists>fhs. mgr_log (manager st1) = mgr_log (manager st) @ fhs
          \<and> (if has_not_written_file_header st
               then \<exists>filepath md.
                      mgr_artifacts (manager st) = [filepath]
                    \<and> file_header_md tz s filepath (baseline_descriptor st) = Inr md
                    \<and> fhs = [(path, FileHeaderW, SPEC_FILE_HEADER_TEMPLATE md)]
               else fhs = [])"
  proof (cases "has_not_written_file_header st")
    case False
    then show ?thesis using event_file_header_cases [OF fh] by simp
  next
    case True
    with event_file_header_cases [OF fh] p0(1) s0(1) obtain filepath md where
      "mgr_artifacts (manager st) = [filepath]"
      "file_header_md tz s filepath (baseline_descriptor st) = Inr md"
      "manager st1 = mgr_write (manager st) path FileHeaderW (SPEC_FILE_HEADER_TEMPLATE md)"
      by auto
    then show ?thesis using True
      by (intro exI [of _ "[(path, FileHeaderW, SPEC_FILE_HEADER_TEMPLATE md)]"])
        (auto simp: mgr_write_def)
  qed
  then obtain fhs where l1: "mgr_log (manager st1) = mgr_log (manager st) @ fhs"
    and k1: "if has_not_written_file_header st
             then \<exists>filepath md.
                    mgr_artifacts (manager st) = [filepath]
                  \<and> file_header_md tz s filepath (baseline_descriptor st) = Inr md
                  \<and> fhs = [(path, FileHeaderW, SPEC_FILE_HEADER_TEMPLATE md)]
             else fhs = []"
    by blast
  have "\<exists>shs. mgr_log (manager st2) = mgr_log (manager st1) @ shs
          \<and> (if has_not_written_scan_header st
               then \<exists>md. scan_header_md tz s (Some pd) (baseline_event st) = Inr md
                        \<and> shs = [(path, ScanHeaderW, SPEC_SCAN_HEADER_TEMPLATE md)]
               else shs = [])"
  proof (cases "has_not_written_scan_header st")
    case False
    then have "\<not> has_not_written_scan_header st1" using f1 by simp
    then show ?thesis using event_scan_header_cases [OF sh] False by simp
  next
    case True
    then have "has_not_written_scan_header st1" using f1 by simp
    with event_scan_header_cases [OF sh] p0(2) s0(2) pd0(2) f1(4) obtain md where
      "scan_header_md tz s (Some pd) (baseline_event st) = Inr md"
      "manager st2 = mgr_write (manager st1) path ScanHeaderW (SPEC_SCAN_HEADER_TEMPLATE md)"
      by auto
    then show ?thesis using True
      by (intro exI [of _ "[(path, ScanHeaderW, SPEC_SCAN_HEADER_TEMPLATE md)]"])
        (auto simp: mgr_write_def)
  qed
  then obtain shs where l2: "mgr_log (manager st2) = mgr_log (manager st1) @ shs"
    and k2: "if has_not_written_scan_header st
             then \<exists>md. scan_header_md tz s (Some pd) (baseline_event st) = Inr md
                      \<and> shs = [(path, ScanHeaderW, SPEC_SCAN_HEADER_TEMPLATE md)]
             else shs = []"
    by blast
  have log: "mgr_log (manager st')
               = mgr_log (manager st) @ fhs @ shs @ [(path, DataLineW, line @ nl)]"
    using l1 l2 m3 by (simp add: mgr_write_def)
  show ?thesis
    using p0(1) s0(1) pd0(1) pd(2) line log k1 k2 by blast
qed

section \<open>What stays the same within a run\<close>

lemma event_same_run:
  assumes "event tz st e = (st1, r)"
  shows "start_of st1 = start_of st \<and> open_file st1 = open_file st
       \<and> mgr_artifacts (manager st1) = mgr_artifacts (manager st)"
proof (cases "is_baseline_event st e")
  case True
  then show ?thesis using assms by (auto simp: event_baseline)
next
  case False
  have w: "\<And>m p k t. mgr_artifacts (mgr_write m p k t) = mgr_artifacts m"
    by (simp add: mgr_write_def)
  from event_primary_steps [OF assms False] show ?thesis
  proof (elim disjE exE conjE)
    assume "st1 = st"
    then show ?thesis by simp
  next
    fix st2 err assume a: "event_file_header tz st = Inr st2" "st1 = st2"
    show ?thesis
      using event_file_header_fields(1,5) [OF a(1)] event_file_header_cases [OF a(1)] a(2)
      by (auto simp: w)
  next
    fix st2 st3
    assume a: "event_file_header tz st = Inr st2" "event_scan_header tz st2 = Inr st3"
      "event_data_line st3 e = (st1, r)"
    have 1: "mgr_artifacts (manager st2) = mgr_artifacts (manager st)"
      using event_file_header_cases [OF a(1)] by (auto simp: w)
    have 2: "mgr_artifacts (manager st3) = mgr_artifacts (manager st2)"
      using event_scan_header_cases [OF a(2)] by (auto simp: w)
    have 3: "mgr_artifacts (manager st1) = mgr_artifacts (manager st3)"
      using event_data_line_ok [of st3 e st1] event_data_line_raised [of st3 e st1] a(3)
      by (cases r) (auto simp: w)
    show ?thesis
      using 1 2 3 event_file_header_fields(1,5) [OF a(1)] event_scan_header_fields(1,5) [OF a(2)]
        event_data_line_fields(1,5) [OF a(3)]
      by simp
  qed
qed

lemma dispatch_same_run:
  assumes "dispatch tz st d = (st1, r)" and "\<not> is_start d"
  shows "start_of st1 = start_of st \<and> open_file st1 = open_file st
       \<and> mgr_artifacts (manager st1) = mgr_artifacts (manager st)"
proof (cases d)
  case (Start s)
  then show ?thesis using assms(2) by (simp add: is_start_def)
next
  case (Descriptor dd)
  then show ?thesis using assms(1) descriptor_fields [of st dd st1 r] by simp
next
  case (Event e)
  then show ?thesis using assms(1) event_same_run by simp
next
  case (Stop sd)
  then show ?thesis using assms(1)
    by (auto simp: stop_def file_write_def mgr_write_def split: sum.splits option.splits)
qed (use assms in auto)

lemma feed_same_run:
  assumes "feed tz st docs = (st1, r)" and "\<forall>d \<in> set docs. \<not> is_start d"
  shows "start_of st1 = start_of st \<and> open_file st1 = open_file st
       \<and> mgr_artifacts (manager st1) = mgr_artifacts (manager st)"
  using assms
proof (induction docs arbitrary: st)
  case Nil
  then show ?case by simp
next
  case (Cons d ds)
  obtain st2 r2 where step: "dispatch tz st d = (st2, r2)" by (cases "dispatch tz st d")
  have keep: "start_of st2 = start_of st \<and> open_file st2 = open_file st
       \<and> mgr_artifacts (manager st2) = mgr_artifacts (manager st)"
    using dispatch_same_run [OF step] Cons.prems(2) by simp
  show ?case
  proof (cases r2)
    case None
    then have "feed tz st2 ds = (st1, r)" using Cons.prems(1) step by simp
    from Cons.IH [OF this] Cons.prems(2) keep show ?thesis by simp
  next
    case (Some err)
    then show ?thesis using Cons.prems(1) step keep by simp
  qed
qed

section \<open>The column selector\<close>

lemma select_fields_ok:
  assumes "\<forall>kv \<in> set kvs. dk_object_name (snd kv) \<noteq> None"
  shows "select_fields m kvs =
     Inr (map fst (filter (\<lambda>kv. dk_object_name (snd kv) \<noteq> Some m \<and> dk_shape (snd kv) = []) kvs))"
  using assms by (induction kvs) (auto simp: field_selected_def)

text \<open>
  C6. When the scanning variable's name is \<open>m\<close> and every field of the primary descriptor
  names its object, the column selector returns the fields whose shape is empty and whose
  object name differs from \<open>m\<close>: exactly those, each once, in ascending (lexicographic)
  order of the field names. It reads nothing but the start document and the descriptor,
  and the Serializer keeps both unchanged through any number of events, so the answer is
  the same whenever it is asked within a run.
\<close>

theorem column_selector:
  assumes "get_motor_name s = Inr m"
    and "\<forall>kv \<in> set (desc_data_keys d). dk_object_name (snd kv) \<noteq> None"
    and "distinct (map fst (desc_data_keys d))"
    and "get_scan_data_column_names s (Some d) = r"
  shows "\<exists>cols. r = Inr cols \<and> sorted cols \<and> distinct cols
       \<and> set cols = {k. \<exists>v. (k, v) \<in> set (desc_data_keys d)
                            \<and> dk_shape v = [] \<and> dk_object_name v \<noteq> Some m}
       \<and> (\<forall>es. let st' = fst (feed tz st (map Event es))
                in start_of st' = start_of st \<and> primary_descriptor st' = primary_descriptor st)"
proof -
  let ?keep = "\<lambda>kv. dk_object_name (snd kv) \<noteq> Some m \<and> dk_shape (snd kv) = []"
  let ?cols = "sort (map fst (filter ?keep (desc_data_keys d)))"
  have r: "r = Inr ?cols"
    using assms(1,4) select_fields_ok [OF assms(2), of m]
    by (simp add: get_scan_data_column_names_def)
  have "distinct (map fst (filter ?keep (desc_data_keys d)))"
    using assms(3) by (rule distinct_map_filter)
  then have d: "distinct ?cols" by simp
  have s: "set ?cols = {k. \<exists>v. (k, v) \<in> set (desc_data_keys d)
                            \<and> dk_shape v = [] \<and> dk_object_name v \<noteq> Some m}"
    by force
  show ?thesis
    using r d s feed_events_keep_documents [of tz st] by (simp add: Let_def)
qed

lemma example_columns: "get_scan_data_column_names one_motor_start (Some scan_descriptor) = Inr [''Zeta'', ''det'']"
  by code_simp
lemma example_motor_name: "get_motor_name one_motor_start = Inr ''m1''"
    by (simp add: get_motor_name_scan [of _ "''scan''"] one_motor_start_def two_motor_start_def)
lemma example_object_names: "\<forall>kv \<in> set (desc_data_keys scan_descriptor). dk_object_name (snd kv) \<noteq> None"
    by (simp add: scan_descriptor_def motor_key_def)
lemma example_distinct_keys: "distinct (map fst (desc_data_keys scan_descriptor))"
    by (simp add: scan_descriptor_def)
theorem column_selector_witness:
  "get_motor_name one_motor_start = Inr ''m1''
   \<and> distinct (map fst (desc_data_keys scan_descriptor))
   \<and> get_scan_data_column_names one_motor_start (Some scan_descriptor) = Inr [''Zeta'', ''det'']
   \<and> sorted [''Zeta'', ''det''] \<and> distinct [''Zeta'', ''det'']"
proof -
  obtain cols where "Inr [''Zeta'', ''det''] = (Inr cols :: error + string list)"
    and p: "sorted cols" "distinct cols"
    using column_selector [OF example_motor_name example_object_names example_distinct_keys
        example_columns, of utc fresh] by blast
  then show ?thesis using example_motor_name example_distinct_keys example_columns by simp
qed
section \<open>The scan header without a baseline event\<close>

lemma scan_header_md_no_baseline_event:
  assumes "scan_header_md tz s pd None = Inr md"
  shows "sh_positioner_positions md = []"
  using assms
  by (auto simp: scan_header_md_def Let_def DEFAULT_POSITIONERS_def try_bind_eq_Inr
    split: option.splits)

text \<open>
  C2 (as the code has it). In a run whose first event is a primary event, so that no
  baseline event has arrived, the scan header written at that event has an empty list of
  positioner positions, whatever baseline descriptor was declared: the line reads
  \<open>#P0\<close> followed by a blank and nothing else. The sentinel \<open>-1\<close> is given once for each
  field of \<open>_DEFAULT_POSITIONERS\<close>, which has none; the baseline descriptor is not consulted.
\<close>

theorem scan_header_without_baseline_event:
  assumes "feed tz (init mgr prefix fl) docs = (st, None)"
    and "\<forall>d \<in> set docs. \<not> is_event d"
    and "\<not> is_baseline_event st e"
    and "event tz st e = (st', None)"
  shows "\<exists>path md fh dl.
           open_file st = Some path
         \<and> mgr_log (manager st') =
             mgr_log (manager st) @ fh
               @ [(path, ScanHeaderW, SPEC_SCAN_HEADER_TEMPLATE md), (path, DataLineW, dl)]
         \<and> (\<forall>w \<in> set fh. fst (snd w) = FileHeaderW)
         \<and> sh_positioner_positions md = []
         \<and> SPEC_SCAN_HEADER_TEMPLATE md =
             nl @ nl
           @ ''#S '' @ str_int (sh_scan_id md) @ '' '' @ sh_command md @ nl
           @ ''#D '' @ sh_readable_time md @ nl
           @ ''#T '' @ str_val (sh_acq_time md) @ ''  (Seconds)'' @ nl
           @ ''#P0 '' @ nl
           @ ''#N '' @ str_int (sh_num_columns md) @ nl
           @ ''#L '' @ sh_motor_name md @ ''  Epoch  Seconds  '' @ join ''  '' (sh_data_keys md)"
proof -
  from feed_non_events [OF assms(2,1)]
  have be: "baseline_event st = None" and flag: "has_not_written_scan_header st"
    by (simp_all add: init_fields)
  from event_primary_steps [OF assms(4,3)]
  obtain st1 st2 where fh: "event_file_header tz st = Inr st1"
    and sh: "event_scan_header tz st1 = Inr st2"
    and dl: "event_data_line st2 e = (st', None)"
    by auto
  note f1 = event_file_header_fields [OF fh]
  have flag1: "has_not_written_scan_header st1" and be1: "baseline_event st1 = None"
    using flag be f1 by simp_all
  from event_scan_header_cases [OF sh] flag1 be1
  obtain path s md where p: "open_file st1 = Some path"
    and md: "scan_header_md tz s (primary_descriptor st1) None = Inr md"
    and m2: "manager st2 = mgr_write (manager st1) path ScanHeaderW (SPEC_SCAN_HEADER_TEMPLATE md)"
    by auto
  note f2 = event_scan_header_fields [OF sh]
  from event_data_line_ok [OF dl] p f2
  obtain line where m3: "manager st' = mgr_write (manager st2) path DataLineW (line @ nl)"
    by auto
  have pos: "sh_positioner_positions md = []"
    by (rule scan_header_md_no_baseline_event [OF md])
  have p0: "open_file st = Some path" using p f1 by simp
  from event_file_header_cases [OF fh]
  have "\<exists>fh. mgr_log (manager st1) = mgr_log (manager st) @ fh
            \<and> (\<forall>w \<in> set fh. fst (snd w) = FileHeaderW)"
  proof (elim disjE conjE exE)
    assume "st1 = st"
    then show ?thesis by simp
  next
    fix path' filepath s' md'
    assume "manager st1 = mgr_write (manager st) path' FileHeaderW (SPEC_FILE_HEADER_TEMPLATE md')"
    then have "mgr_log (manager st1)
        = mgr_log (manager st) @ [(path', FileHeaderW, SPEC_FILE_HEADER_TEMPLATE md')]"
      by (simp add: mgr_write_def)
    then show ?thesis by simp
  qed
  then obtain fh where l1: "mgr_log (manager st1) = mgr_log (manager st) @ fh"
    and fhk: "\<forall>w \<in> set fh. fst (snd w) = FileHeaderW" by blast
  have log: "mgr_log (manager st') =
             mgr_log (manager st) @ fh
               @ [(path, ScanHeaderW, SPEC_SCAN_HEADER_TEMPLATE md), (path, DataLineW, line @ nl)]"
    using l1 m2 m3 by (simp add: mgr_write_def)
  have rendered: "SPEC_SCAN_HEADER_TEMPLATE md =
             nl @ nl
           @ ''#S '' @ str_int (sh_scan_id md) @ '' '' @ sh_command md @ nl
           @ ''#D '' @ sh_readable_time md @ nl
           @ ''#T '' @ str_val (sh_acq_time md) @ ''  (Seconds)'' @ nl
           @ ''#P0 '' @ nl
           @ ''#N '' @ str_int (sh_num_columns md) @ nl
           @ ''#L '' @ sh_motor_name md @ ''  Epoch  Seconds  '' @ join ''  '' (sh_data_keys md)"
    by (simp add: SPEC_SCAN_HEADER_TEMPLATE_def pos)
  show ?thesis using p0 log fhk pos rendered by blast
qed

lemma baseline_run_state:
  "snd (feed utc fresh baseline_run_docs) = None"
  "baseline_descriptor (fst (feed utc fresh baseline_run_docs)) = Some four_baseline"
  "\<not> is_baseline_event (fst (feed utc fresh baseline_run_docs)) det_event0"
  "\<forall>d \<in> set baseline_run_docs. \<not> is_event d"
  by (simp_all add: baseline_run_docs_def fresh_def init_def start_def default_file_prefix_def
    count_start_def mgr_open_def MultiFileManager_def descriptor_def four_baseline_def
    det_descriptor_def Let_def is_baseline_event_def det_event0_def is_event_def)

lemma baseline_run_log:
  "map snd (mgr_log (manager (fst (event utc (fst (feed utc fresh baseline_run_docs)) det_event0))))
   = [(FileHeaderW,
         ''#F run1.spec'' @ nl @ ''#E 1000000000'' @ nl @ ''#D Sun Sep 09 01:46:40 2001'' @ nl
       @ ''#C   User = '' @ nl @ ''#O0 PV:m1  PV:m2  PV:m3  PV:m4'' @ nl @ ''#o0 m1 m2 m3 m4''),
      (ScanHeaderW,
         nl @ nl @ ''#S 7 ct seq_num -1'' @ nl @ ''#D Sun Sep 09 01:46:40 2001'' @ nl
       @ ''#T -1  (Seconds)'' @ nl @ ''#P0 '' @ nl @ ''#N 4'' @ nl
       @ ''#L seq_num  Epoch  Seconds  det''),
      (DataLineW, nl @ ''0  1000000001 -1 1.5'' @ nl)]"
  "snd (event utc (fst (feed utc fresh baseline_run_docs)) det_event0) = None"
  by code_simp+


theorem scan_header_without_baseline_event_witness:
  "snd (feed utc fresh baseline_run_docs) = None
   \<and> \<not> is_baseline_event (fst (feed utc fresh baseline_run_docs)) det_event0
   \<and> snd (event utc (fst (feed utc fresh baseline_run_docs)) det_event0) = None
   \<and> (\<exists>path md fh dl.
         mgr_log (manager (fst (event utc (fst (feed utc fresh baseline_run_docs)) det_event0)))
           = mgr_log (manager (fst (feed utc fresh baseline_run_docs))) @ fh
               @ [(path, ScanHeaderW, SPEC_SCAN_HEADER_TEMPLATE md), (path, DataLineW, dl)]
       \<and> sh_positioner_positions md = [])"
proof -
  let ?st = "fst (feed utc fresh baseline_run_docs)"
  have a: "feed utc (init (MultiFileManager ''out'' (\<lambda>p. [])) default_file_prefix False)
             baseline_run_docs = (?st, None)"
    using baseline_run_state(1) by (simp add: fresh_def prod_eq_iff)
  have b: "event utc ?st det_event0 = (fst (event utc ?st det_event0), None)"
    using baseline_run_log(2) by (simp add: prod_eq_iff)
  from scan_header_without_baseline_event [OF a baseline_run_state(4) baseline_run_state(3) b]
  obtain path md fh dl where
    "mgr_log (manager (fst (event utc ?st det_event0)))
       = mgr_log (manager ?st) @ fh
           @ [(path, ScanHeaderW, SPEC_SCAN_HEADER_TEMPLATE md), (path, DataLineW, dl)]"
    "sh_positioner_positions md = []"
    by blast
  then show ?thesis
    using baseline_run_state(1,3) baseline_run_log(2) by blast
qed

text \<open>
  C2 (as the claim states it) fails: with the baseline descriptor of four positioners
  declared and stored, and no baseline event, the first primary event writes a file header
  that names the four positioners and a scan header whose \<open>#P0\<close> line is empty, not four
  times \<open>-1\<close>.
\<close>

theorem declared_baseline_renders_no_sentinels:
  "length (desc_data_keys four_baseline) = 4
   \<and> baseline_descriptor (fst (feed utc fresh baseline_run_docs)) = Some four_baseline
   \<and> map snd (mgr_log (manager
           (fst (event utc (fst (feed utc fresh baseline_run_docs)) det_event0))))
     = [(FileHeaderW,
           ''#F run1.spec'' @ nl @ ''#E 1000000000'' @ nl @ ''#D Sun Sep 09 01:46:40 2001'' @ nl
         @ ''#C   User = '' @ nl @ ''#O0 PV:m1  PV:m2  PV:m3  PV:m4'' @ nl @ ''#o0 m1 m2 m3 m4''),
        (ScanHeaderW,
           nl @ nl @ ''#S 7 ct seq_num -1'' @ nl @ ''#D Sun Sep 09 01:46:40 2001'' @ nl
         @ ''#T -1  (Seconds)'' @ nl @ ''#P0 '' @ nl @ ''#N 4'' @ nl
         @ ''#L seq_num  Epoch  Seconds  det''),
        (DataLineW, nl @ ''0  1000000001 -1 1.5'' @ nl)]"
  using baseline_run_state(2) baseline_run_log(1) by (simp add: four_baseline_def)

section \<open>The end-to-end scenario\<close>

lemma str_examples [simp]:
  "str_int 7 = ''7''" "str_int (- 1) = ''-1''" "str_int 0 = ''0''" "str_int 1 = ''1''"
  "str_int 4 = ''4''"
  "str_int 1000000000 = ''1000000000''" "str_int 1000000001 = ''1000000001''"
  "str_int 1000000002 = ''1000000002''"
  "str_dec 15 1 = ''1.5''" "str_dec 25 1 = ''2.5''"
  by code_simp+

lemma get_motor_name_count:
  "start_plan_name s = Some ''count'' \<Longrightarrow> get_motor_name s = Inr ''seq_num''"
  by (simp add: get_motor_name_def get_plan_name_def)

lemma sort_singleton_string [simp]: "sort [x :: string] = [x]"
  by simp

lemma scenario_columns:
  assumes "scenario_start s" and "scenario_descriptor d"
  shows "get_scan_data_column_names s (Some d) = Inr [''det'']"
  using assms
  by (simp add: scenario_start_def scenario_descriptor_def get_scan_data_column_names_def
    get_motor_name_count field_selected_def)

lemma scenario_scan_header_md:
  assumes "scenario_start s" and "scenario_descriptor d" and "fromtimestamp tz 1000000000 = Inr dt"
  shows "scan_header_md tz s (Some d) None =
     Inr \<lparr> sh_scan_id = 7, sh_command = ''ct seq_num -1'', sh_readable_time = to_spec_time dt,
           sh_acq_time = VInt (- 1), sh_positioner_positions = [], sh_data_keys = [''det''],
           sh_num_columns = 4, sh_motor_name = ''seq_num'' \<rparr>"
  using assms(1,3) scenario_columns [OF assms(1,2)]
  by (simp add: scenario_start_def scan_header_md_def get_plan_name_def get_motor_name_count
    get_acq_time_def DEFAULT_POSITIONERS_def)

lemma scenario_scan_data:
  assumes "scenario_start s" and "scenario_descriptor d"
  shows "to_spec_scan_data s (Some d) (scenario_event d n v t) =
     Inr (nl @ str_int n @ ''  '' @ str_int t @ '' -1 '' @ str_val v)"
  using assms(1) scenario_columns [OF assms]
  by (simp add: scenario_start_def to_spec_scan_data_def get_motor_position_def get_plan_name_def
    get_acq_time_def scenario_event_def getitem_def SPEC_EVENT_TEMPLATE_def)

lemma scenario_file_header:
  assumes "scenario_start s" and "fromtimestamp tz 1000000000 = Inr dt"
  shows "to_spec_file_header tz s filepath None =
     Inr (''#F '' @ basename filepath @ nl @ ''#E 1000000000'' @ nl
        @ ''#D '' @ to_spec_time dt @ nl
        @ ''#C '' @ (case start_owner s of None \<Rightarrow> [] | Some ow \<Rightarrow> ow) @ ''  User = ''
            @ (case start_owner s of None \<Rightarrow> [] | Some ow \<Rightarrow> ow) @ nl
        @ ''#O0 '' @ nl @ ''#o0 '')"
  using assms
  by (simp add: scenario_start_def to_spec_file_header_def file_header_md_def
    DEFAULT_POSITIONERS_def SPEC_FILE_HEADER_TEMPLATE_def)

lemma scenario_event_descriptor:
  "event_descriptor (scenario_event d n v t) = desc_uid d"
  by (simp add: scenario_event_def)

lemma str_dec_Suc [simp]:
  "str_dec 15 (Suc 0) = ''1.5''" "str_dec 25 (Suc 0) = ''2.5''"
  using str_examples(9,10) by (simp_all only: One_nat_def)

text \<open>
  C1 (as the code has it). A fresh Serializer with the default file prefix, over a manager
  that allows appending and whose target file is new, is fed the scenario: a start document
  with plan \<open>count\<close>, scan id 7 and time 1000000000 (no count time), a primary descriptor
  with the one scalar field \<open>det\<close>, the two events and a successful stop. Nothing is raised,
  and the file receives, in this order: the file header, named after the run's uid; the
  scan header, whose command is \<open>ct seq_num -1\<close> (the SPEC name of the plan); the data
  lines \<open>0  1000000001 -1 1.5\<close> and \<open>1  1000000002 -1 2.5\<close>, each written with a newline
  before and after it; and the trailer, a single newline, with no failure comment.
\<close>

theorem count_scenario_output:
  assumes "scenario_start s" and "scenario_descriptor d"
    and "fromtimestamp tz 1000000000 = Inr dt"
    and "mgr_allows_append mgr" and "mgr_artifacts mgr = []" and "mgr_log mgr = []"
    and "mgr_existing mgr path = []"
    and "path = path_join (mgr_directory mgr) (start_uid s @ ''.spec'')"
    and "stop_exit_status sd = ''success''"
    and "docs = [Start s, Descriptor d, Event (scenario_event d 0 (VDec 15 1) 1000000001),
                 Event (scenario_event d 1 (VDec 25 1) 1000000002), Stop sd]"
  shows "snd (feed tz (init mgr default_file_prefix fl) docs) = None
       \<and> mgr_log (manager (fst (feed tz (init mgr default_file_prefix fl) docs))) =
           [(path, FileHeaderW,
               ''#F '' @ basename path @ nl @ ''#E 1000000000'' @ nl
             @ ''#D '' @ to_spec_time dt @ nl
             @ ''#C '' @ (case start_owner s of None \<Rightarrow> [] | Some ow \<Rightarrow> ow) @ ''  User = ''
                 @ (case start_owner s of None \<Rightarrow> [] | Some ow \<Rightarrow> ow) @ nl
             @ ''#O0 '' @ nl @ ''#o0 ''),
            (path, ScanHeaderW,
               nl @ nl @ ''#S 7 ct seq_num -1'' @ nl @ ''#D '' @ to_spec_time dt @ nl
             @ ''#T -1  (Seconds)'' @ nl @ ''#P0 '' @ nl @ ''#N 4'' @ nl
             @ ''#L seq_num  Epoch  Seconds  det''),
            (path, DataLineW, nl @ ''0  1000000001 -1 1.5'' @ nl),
            (path, DataLineW, nl @ ''1  1000000002 -1 2.5'' @ nl),
            (path, TrailerW, nl)]"
proof -
  let ?st0 = "init mgr default_file_prefix fl"
  have nb: "desc_name d \<noteq> Some ''baseline''"
    using assms(2) by (simp add: scenario_descriptor_def)
  show ?thesis
    using assms(4-10) nb
    by (simp add: start_def init_def default_file_prefix_def mgr_open_def Let_def tell_def
      file_text_def mgr_written_def descriptor_def event_def is_baseline_event_def
      event_file_header_def write_new_header_def scenario_file_header [OF assms(1,3)]
      file_write_def mgr_write_def event_scan_header_def to_spec_scan_header_def
      scenario_scan_header_md [OF assms(1,2,3)] SPEC_SCAN_HEADER_TEMPLATE_def
      event_data_line_def scenario_scan_data [OF assms(1,2)] scenario_event_descriptor
      stop_def stop_message_def)
qed


theorem count_scenario_output_witness:
  "scenario_start count_start \<and> scenario_descriptor det_descriptor
   \<and> fromtimestamp utc 1000000000
       = Inr \<lparr> dt_year = 2001, dt_month = 9, dt_day = 9, dt_hour = 1, dt_minute = 46,
               dt_second = 40, dt_microsecond = 0 \<rparr>
   \<and> stop_exit_status success_stop = ''success''
   \<and> snd (feed utc fresh
          [Start count_start, Descriptor det_descriptor,
           Event (scenario_event det_descriptor 0 (VDec 15 1) 1000000001),
           Event (scenario_event det_descriptor 1 (VDec 25 1) 1000000002),
           Stop success_stop]) = None
   \<and> map (fst \<circ> snd) (mgr_log (manager (fst (feed utc fresh
          [Start count_start, Descriptor det_descriptor,
           Event (scenario_event det_descriptor 0 (VDec 15 1) 1000000001),
           Event (scenario_event det_descriptor 1 (VDec 25 1) 1000000002),
           Stop success_stop]))))
       = [FileHeaderW, ScanHeaderW, DataLineW, DataLineW, TrailerW]"
proof -
  let ?dt = "\<lparr> dt_year = 2001, dt_month = 9, dt_day = 9, dt_hour = 1, dt_minute = 46,
               dt_second = 40, dt_microsecond = 0 \<rparr>"
  have s: "scenario_start count_start"
    by (simp add: scenario_start_def count_start_def)
  have d: "scenario_descriptor det_descriptor"
    by (simp add: scenario_descriptor_def det_descriptor_def)
  have t: "fromtimestamp utc 1000000000 = Inr ?dt"
    by code_simp
  have e: "stop_exit_status success_stop = ''success''"
    by (simp add: success_stop_def)
  have m: "mgr_allows_append (MultiFileManager ''out'' (\<lambda>p. []))"
    "mgr_artifacts (MultiFileManager ''out'' (\<lambda>p. [])) = []"
    "mgr_log (MultiFileManager ''out'' (\<lambda>p. [])) = []"
    "mgr_existing (MultiFileManager ''out'' (\<lambda>p. [])) ''out/run1.spec'' = []"
    "''out/run1.spec'' = path_join (mgr_directory (MultiFileManager ''out'' (\<lambda>p. [])))
                           (start_uid count_start @ ''.spec'')"
    by (simp_all add: MultiFileManager_def path_join_def count_start_def)
  from count_scenario_output [OF s d t m e refl, of False]
  show ?thesis using s d t e by (simp add: fresh_def)
qed

text \<open>
  C1 (as the claim states it) fails on the command string: read in UTC, the scenario's
  output is the following, and its scan header says \<open>ct seq_num -1\<close>, not
  \<open>count seq_num -1\<close>.
\<close>

theorem count_scenario_command_is_ct:
  "snd (feed utc fresh count_scenario_docs) = None
   \<and> map snd (mgr_log (manager (fst (feed utc fresh count_scenario_docs))))
     = [(FileHeaderW,
           ''#F run1.spec'' @ nl @ ''#E 1000000000'' @ nl @ ''#D Sun Sep 09 01:46:40 2001'' @ nl
         @ ''#C   User = '' @ nl @ ''#O0 '' @ nl @ ''#o0 ''),
        (ScanHeaderW,
           nl @ nl @ ''#S 7 ct seq_num -1'' @ nl @ ''#D Sun Sep 09 01:46:40 2001'' @ nl
         @ ''#T -1  (Seconds)'' @ nl @ ''#P0 '' @ nl @ ''#N 4'' @ nl
         @ ''#L seq_num  Epoch  Seconds  det''),
        (DataLineW, nl @ ''0  1000000001 -1 1.5'' @ nl),
        (DataLineW, nl @ ''1  1000000002 -1 2.5'' @ nl),
        (TrailerW, nl)]"
  by code_simp

section \<open>A second primary descriptor\<close>

text \<open>
  C8 (as the code has it). When a primary descriptor is stored, feeding a further
  descriptor whose name is not \<open>baseline\<close> raises \<open>NotImplementedError\<close> and leaves the
  Serializer exactly as it was: the first primary descriptor stays, nothing is written.
  If no event came before it, no data line has been written by then.
\<close>

theorem second_primary_descriptor_raises:
  assumes "feed tz st0 docs = (st, None)"
    and "primary_descriptor st = Some d1"
    and "desc_name d2 \<noteq> Some ''baseline''"
  shows "feed tz st0 (docs @ [Descriptor d2]) = (st, Some NotImplementedError)
       \<and> primary_descriptor st = Some d1
       \<and> ((\<forall>d \<in> set docs. \<not> is_event d) \<longrightarrow>
            count_kind DataLineW (map snd (mgr_log (manager st)))
              = count_kind DataLineW (map snd (mgr_log (manager st0))))"
proof -
  have "feed tz st0 (docs @ [Descriptor d2]) = (st, Some NotImplementedError)"
    using assms by (simp add: feed_append descriptor_second_primary)
  moreover have "count_kind DataLineW (map snd (mgr_log (manager st)))
              = count_kind DataLineW (map snd (mgr_log (manager st0)))"
    if "\<forall>d \<in> set docs. \<not> is_event d"
    using feed_non_events [OF that assms(1)] by (intro count_kind_without_trailers) simp_all
  ultimately show ?thesis using assms(2) by simp
qed

lemma count_run_state:
  "snd (feed utc fresh count_run_docs) = None"
  "primary_descriptor (fst (feed utc fresh count_run_docs)) = Some det_descriptor"
  "\<forall>d \<in> set count_run_docs. \<not> is_event d"
  "mgr_log (manager (fst (feed utc fresh count_run_docs))) = []"
  by (simp_all add: count_run_docs_def fresh_def init_def start_def default_file_prefix_def
    count_start_def mgr_open_def MultiFileManager_def descriptor_def
    det_descriptor_def Let_def is_event_def)

theorem second_primary_descriptor_raises_witness:
  "snd (feed utc fresh count_run_docs) = None
   \<and> primary_descriptor (fst (feed utc fresh count_run_docs)) = Some det_descriptor
   \<and> desc_name monitor_descriptor \<noteq> Some ''baseline''
   \<and> snd (feed utc fresh (count_run_docs @ [Descriptor monitor_descriptor]))
       = Some NotImplementedError
   \<and> primary_descriptor (fst (feed utc fresh (count_run_docs @ [Descriptor monitor_descriptor])))
       = Some det_descriptor
   \<and> count_kind DataLineW (map snd (mgr_log (manager
         (fst (feed utc fresh (count_run_docs @ [Descriptor monitor_descriptor])))))) = 0"
proof -
  let ?st = "fst (feed utc fresh count_run_docs)"
  have a: "feed utc fresh count_run_docs = (?st, None)"
    using count_run_state(1) by (simp add: prod_eq_iff)
  have n: "desc_name monitor_descriptor \<noteq> Some ''baseline''"
    by (simp add: monitor_descriptor_def)
  have z: "count_kind DataLineW (map snd (mgr_log (manager fresh))) = 0"
    by (simp add: fresh_def init_def MultiFileManager_def count_kind_def)
  from second_primary_descriptor_raises [OF a count_run_state(2) n]
  show ?thesis using count_run_state(1,2,3) n z by simp
qed

text \<open>
  C8 (as the claim states it) fails when a primary event precedes the second descriptor,
  as it does when a second stream opens in the middle of a run: the error is raised after
  a data line has been written.
\<close>

theorem second_descriptor_after_data_line:
  "snd (feed utc fresh (count_run_docs @ [Event det_event0, Descriptor monitor_descriptor]))
     = Some NotImplementedError
   \<and> map (fst \<circ> snd) (mgr_log (manager (fst
        (feed utc fresh (count_run_docs @ [Event det_event0, Descriptor monitor_descriptor])))))
     = [FileHeaderW, ScanHeaderW, DataLineW]
   \<and> count_kind DataLineW (map snd (mgr_log (manager (fst
        (feed utc fresh (count_run_docs @ [Event det_event0, Descriptor monitor_descriptor]))))))
     = 1"
  by code_simp

section \<open>Data lines and primary events\<close>

lemma try_map_all2:
  "try_map f xs = Inr ys \<Longrightarrow> list_all2 (\<lambda>x y. f x = Inr y) xs ys"
proof (induction xs arbitrary: ys)
  case Nil
  then show ?case by simp
next
  case (Cons x xs)
  then show ?case by (auto simp: try_bind_eq_Inr)
qed

lemma data_lines_without_trailers:
  assumes "filter (\<lambda>w. fst (snd w) \<noteq> TrailerW) (mgr_log m1)
             = filter (\<lambda>w. fst (snd w) \<noteq> TrailerW) (mgr_log m)"
  shows "data_lines m1 = data_lines m"
proof -
  have "\<And>zs. filter (\<lambda>w. fst (snd w) = DataLineW) zs
          = filter (\<lambda>w. fst (snd w) = DataLineW) (filter (\<lambda>w. fst (snd w) \<noteq> TrailerW) zs)"
    by (simp add: conj_commute cong: conj_cong)
  then have "filter (\<lambda>w. fst (snd w) = DataLineW) (mgr_log m1)
           = filter (\<lambda>w. fst (snd w) = DataLineW) (mgr_log m)"
    using assms by metis
  then show ?thesis by (simp add: data_lines_def)
qed

lemma event_primary_data_line:
  assumes "event tz st e = (st', None)" and "\<not> is_baseline_event st e"
    and "open_file st = Some path" and "start_of st = Some s"
  shows "\<exists>pd line.
           primary_descriptor st' = Some pd \<and> event_descriptor e = desc_uid pd
         \<and> to_spec_scan_data s (Some pd) e = Inr line
         \<and> data_lines (manager st') = data_lines (manager st) @ [(path, line @ nl)]
         \<and> num_events_received st' = num_events_received st + 1
         \<and> num_baseline_events_received st' = num_baseline_events_received st"
proof -
  from event_primary_written [OF assms(1,2)] assms(3,4)
  obtain pd line fh sh where pd: "primary_descriptor st = Some pd"
    "event_descriptor e = desc_uid pd"
    and line: "to_spec_scan_data s (Some pd) e = Inr line"
    and log: "mgr_log (manager st')
                = mgr_log (manager st) @ fh @ sh @ [(path, DataLineW, line @ nl)]"
    and fh: "if has_not_written_file_header st
             then \<exists>filepath md.
                    mgr_artifacts (manager st) = [filepath]
                  \<and> file_header_md tz s filepath (baseline_descriptor st) = Inr md
                  \<and> fh = [(path, FileHeaderW, SPEC_FILE_HEADER_TEMPLATE md)]
             else fh = []"
    and sh: "if has_not_written_scan_header st
             then \<exists>md. scan_header_md tz s (Some pd) (baseline_event st) = Inr md
                      \<and> sh = [(path, ScanHeaderW, SPEC_SCAN_HEADER_TEMPLATE md)]
             else sh = []"
    by auto
  have nfh: "filter (\<lambda>w. fst (snd w) = DataLineW) fh = []"
    using fh by (auto split: if_splits)
  have nsh: "filter (\<lambda>w. fst (snd w) = DataLineW) sh = []"
    using sh by (auto split: if_splits)
  have dl: "data_lines (manager st') = data_lines (manager st) @ [(path, line @ nl)]"
    by (simp add: data_lines_def log nfh nsh)
  from event_primary_log [OF assms(1,2)] pd(1)
  have "primary_descriptor st' = Some pd"
    "num_events_received st' = num_events_received st + 1"
    "num_baseline_events_received st' = num_baseline_events_received st"
    by auto
  then show ?thesis using pd(2) line dl by blast
qed

lemma event_keeps_baseline_descriptor:
  assumes "event tz st e = (st1, r)"
  shows "baseline_descriptor st1 = baseline_descriptor st" "open_file st1 = open_file st"
proof -
  have "baseline_descriptor st1 = baseline_descriptor st \<and> open_file st1 = open_file st"
  proof (cases "is_baseline_event st e")
    case True
    then show ?thesis using assms by (auto simp: event_baseline)
  next
    case False
    from event_primary_steps [OF assms False] show ?thesis
    proof (elim disjE exE conjE)
      fix err assume "st1 = st"
      then show ?thesis by simp
    next
      fix st2 err assume "event_file_header tz st = Inr st2" "st1 = st2"
      then show ?thesis using event_file_header_fields [of tz st st2] by simp
    next
      fix st2 st3
      assume a: "event_file_header tz st = Inr st2" "event_scan_header tz st2 = Inr st3"
        "event_data_line st3 e = (st1, r)"
      show ?thesis
        using event_file_header_fields(3,5) [OF a(1)] event_scan_header_fields(3,5) [OF a(2)]
          event_data_line_fields(3,5) [OF a(3)]
        by simp
    qed
  qed
  then show "baseline_descriptor st1 = baseline_descriptor st" "open_file st1 = open_file st"
    by simp_all
qed

lemma dispatch_baseline_descriptor:
  assumes "dispatch tz st d = (st1, r)" and "baseline_descriptor st1 = Some bd"
  shows "baseline_descriptor st = Some bd \<or> desc_uid bd \<in> set (baseline_uids [d])"
proof (cases d)
  case (Event e)
  then show ?thesis using assms event_keeps_baseline_descriptor(1) [of tz st e st1 r] by simp
next
  case (Descriptor dd)
  then show ?thesis using assms
    by (auto simp: descriptor_def baseline_uids_def split: if_splits)
qed (use assms in \<open>auto dest: start_fields stop_fields\<close>)

lemma primary_events_Cons:
  "primary_events st (d # ds)
     = (case d of Event e \<Rightarrow> if is_primary_event st d then [e] else [] | _ \<Rightarrow> [])
       @ primary_events st ds"
  by (simp add: primary_events_def)

lemma feed_data_lines:
  assumes "feed tz st docs = (st', None)"
    and "\<forall>d \<in> set docs. \<not> is_start d"
    and "open_file st = Some path" and "start_of st = Some s"
    and "primary_uid_apart st' (baseline_uids docs)"
    and "\<forall>bd. baseline_descriptor st = Some bd \<longrightarrow> primary_uid_apart st' [desc_uid bd]"
  shows "\<exists>lines.
           data_lines (manager st')
             = data_lines (manager st) @ map (\<lambda>l. (path, l @ nl)) lines
         \<and> try_map (to_spec_scan_data s (primary_descriptor st')) (primary_events st' docs)
             = Inr lines
         \<and> num_events_received st'
             = num_events_received st + length (primary_events st' docs)
         \<and> num_events_received st' + num_baseline_events_received st'
             = num_events_received st + num_baseline_events_received st
               + length (filter is_event docs)"
  using assms
proof (induction docs arbitrary: st)
  case Nil
  then show ?case by (simp add: primary_events_def)
next
  case (Cons d ds)
  obtain st1 r where step: "dispatch tz st d = (st1, r)" by (cases "dispatch tz st d")
  have r: "r = None" using Cons.prems(1) step by (cases r) simp_all
  have rest: "feed tz st1 ds = (st', None)" using Cons.prems(1) step r by simp
  have ns: "\<not> is_start d" "\<forall>d \<in> set ds. \<not> is_start d" using Cons.prems(2) by simp_all
  have same: "open_file st1 = Some path" "start_of st1 = Some s"
    using dispatch_same_run [OF step ns(1)] Cons.prems(3,4) by simp_all
  have uids: "baseline_uids (d # ds) = baseline_uids [d] @ baseline_uids ds"
    by (simp add: baseline_uids_def)
  have apart_ds: "primary_uid_apart st' (baseline_uids ds)"
    using Cons.prems(5) unfolding uids by (auto simp: primary_uid_apart_def split: option.splits)
  have apart_d: "primary_uid_apart st' (baseline_uids [d])"
    using Cons.prems(5) unfolding uids by (auto simp: primary_uid_apart_def split: option.splits)
  have apart_st1: "\<forall>bd. baseline_descriptor st1 = Some bd \<longrightarrow> primary_uid_apart st' [desc_uid bd]"
  proof (intro allI impI)
    fix bd assume "baseline_descriptor st1 = Some bd"
    from dispatch_baseline_descriptor [OF step this]
    show "primary_uid_apart st' [desc_uid bd]"
      using Cons.prems(6) apart_d by (auto simp: primary_uid_apart_def split: option.splits)
  qed
  from Cons.IH [OF rest ns(2) same apart_ds apart_st1]
  obtain lines where
    IH1: "data_lines (manager st')
            = data_lines (manager st1) @ map (\<lambda>l. (path, l @ nl)) lines"
    and IH2: "try_map (to_spec_scan_data s (primary_descriptor st')) (primary_events st' ds)
                = Inr lines"
    and IH3: "num_events_received st'
                = num_events_received st1 + length (primary_events st' ds)"
    and IH4: "num_events_received st' + num_baseline_events_received st'
                = num_events_received st1 + num_baseline_events_received st1
                  + length (filter is_event ds)"
    by blast
  show ?case
  proof (cases "is_event d")
    case False
    then have np: "primary_events st' (d # ds) = primary_events st' ds"
      by (auto simp: primary_events_Cons is_event_def split: document.splits)
    have dl: "data_lines (manager st1) = data_lines (manager st)"
      by (rule data_lines_without_trailers [OF dispatch_non_event(5) [OF False step]])
    from dispatch_non_event(3,4) [OF False step] IH1 IH2 IH3 IH4 False
    show ?thesis unfolding np dl by simp
  next
    case True
    then obtain e where d: "d = Event e" by (auto simp: is_event_def split: document.splits)
    have ev: "event tz st e = (st1, None)" using step r d by simp
    show ?thesis
    proof (cases "is_baseline_event st e")
      case bl: True
      then obtain bd where bd: "baseline_descriptor st = Some bd" "event_descriptor e = desc_uid bd"
        by (auto simp: is_baseline_event_def split: option.splits)
      have "\<not> is_primary_event st' d"
        using Cons.prems(6) bd d
        by (auto simp: is_primary_event_def primary_uid_apart_def split: option.splits)
      then have np: "primary_events st' (d # ds) = primary_events st' ds"
        using d by (simp add: primary_events_Cons)
      have st1: "st1 = st\<lparr> num_baseline_events_received := num_baseline_events_received st + 1,
                           baseline_event := Some e \<rparr>"
        using ev bl by (simp add: event_baseline)
      show ?thesis using IH1 IH2 IH3 IH4 True unfolding np by (simp add: st1)
    next
      case nb: False
      from event_primary_data_line [OF ev nb Cons.prems(3,4)]
      obtain pd line where pd: "primary_descriptor st1 = Some pd"
        "event_descriptor e = desc_uid pd"
        and line: "to_spec_scan_data s (Some pd) e = Inr line"
        and dl: "data_lines (manager st1) = data_lines (manager st) @ [(path, line @ nl)]"
        and n: "num_events_received st1 = num_events_received st + 1"
          "num_baseline_events_received st1 = num_baseline_events_received st"
        by blast
      have pd': "primary_descriptor st' = Some pd"
        by (rule feed_primary_kept [OF rest pd(1)])
      then have "is_primary_event st' d"
        using pd(2) d by (simp add: is_primary_event_def)
      then have np: "primary_events st' (d # ds) = e # primary_events st' ds"
        using d by (simp add: primary_events_Cons)
      have tm: "try_map (to_spec_scan_data s (primary_descriptor st')) (primary_events st' (d # ds))
                  = Inr (line # lines)"
        unfolding np using line IH2 by (simp add: pd')
      have "data_lines (manager st')
              = data_lines (manager st) @ map (\<lambda>l. (path, l @ nl)) (line # lines)"
        using IH1 dl by simp
      then show ?thesis using tm IH3 IH4 n True unfolding np
        by (intro exI [of _ "line # lines"]) simp
    qed
  qed
qed

lemma run_data_lines:
  assumes "feed tz (init mgr prefix fl) (Start s # ds) = (st, None)"
    and "\<forall>d \<in> set ds. \<not> is_start d"
    and "mgr_log mgr = []"
    and "primary_uid_apart st (baseline_uids ds)"
  shows "\<exists>path lines.
           open_file st = Some path
         \<and> data_lines (manager st) = map (\<lambda>l. (path, l @ nl)) lines
         \<and> try_map (to_spec_scan_data s (primary_descriptor st)) (primary_events st ds)
             = Inr lines
         \<and> num_events_received st = length (primary_events st ds)
         \<and> num_events_received st + num_baseline_events_received st
             = length (filter is_event ds)"
proof -
  obtain st1 r where st1: "start (init mgr prefix fl) s = (st1, r)"
    by (cases "start (init mgr prefix fl) s")
  have r: "r = None" using assms(1) st1 by (cases r) simp_all
  have rest: "feed tz st1 ds = (st, None)" using assms(1) st1 r by simp
  from st1 r obtain path where p: "open_file st1 = Some path" and s: "start_of st1 = Some s"
    by (auto simp: start_def Let_def split: sum.splits option.splits)
  note f = start_fields [OF st1]
  have bd: "\<forall>bd. baseline_descriptor st1 = Some bd \<longrightarrow> primary_uid_apart st [desc_uid bd]"
    using f(2) by (simp add: init_fields)
  have z: "data_lines (manager st1) = []" "num_events_received st1 = 0"
    "num_baseline_events_received st1 = 0"
    using f(5,6,7) assms(3) by (simp_all add: init_fields data_lines_def)
  have "open_file st = Some path"
    using feed_same_run [OF rest assms(2)] p by simp
  with feed_data_lines [OF rest assms(2) p s assms(4) bd] z
  show ?thesis by auto
qed


text \<open>
  C7. In a run (a start document, then documents that are not start documents) that a
  fresh Serializer processes without an exception, over a manager that has written nothing
  yet, the data lines written are, in order and one for one, the rendered lines of the
  event documents of the primary stream (those that refer to the stored primary
  descriptor): each is written to the open file and reads, between two newlines, the
  position, the time, the count time and the values of the selected columns. They are as
  many as those events, which is also what \<open>_num_events_received\<close> counts; every other
  event document is a baseline event, and a baseline event leaves the manager, and so the
  output, untouched. Unique identifiers are taken to be unique: no baseline descriptor of
  the run shares the primary descriptor's uid.
\<close>

theorem data_lines_match_primary_events:
  assumes "feed tz (init mgr prefix fl) (Start s # ds) = (st, None)"
    and "\<forall>d \<in> set ds. \<not> is_start d"
    and "mgr_log mgr = []"
    and "primary_uid_apart st (baseline_uids ds)"
  shows "length (data_lines (manager st)) = length (primary_events st ds)
       \<and> (\<exists>path. open_file st = Some path
            \<and> list_all2
                 (\<lambda>e w. fst w = path
                    \<and> (\<exists>pos cols vals.
                          get_motor_position s e = Inr pos
                        \<and> get_scan_data_column_names s (primary_descriptor st) = Inr cols
                        \<and> try_map (getitem (event_data e)) cols = Inr vals
                        \<and> snd w = nl @ str_val pos @ ''  '' @ str_int (event_time e) @ '' ''
                                    @ str_val (get_acq_time s (VInt (- 1))) @ '' ''
                                    @ join '' '' (map str_val vals) @ nl))
                 (primary_events st ds) (data_lines (manager st)))
       \<and> num_events_received st = length (primary_events st ds)
       \<and> num_events_received st + num_baseline_events_received st
           = length (filter is_event ds)
       \<and> (is_baseline_event st0 e0 \<longrightarrow> manager (fst (event tz st0 e0)) = manager st0)"
proof -
  from run_data_lines [OF assms]
  obtain path lines where p: "open_file st = Some path"
    and dl: "data_lines (manager st) = map (\<lambda>l. (path, l @ nl)) lines"
    and tm: "try_map (to_spec_scan_data s (primary_descriptor st)) (primary_events st ds)
               = Inr lines"
    and n: "num_events_received st = length (primary_events st ds)"
      "num_events_received st + num_baseline_events_received st = length (filter is_event ds)"
    by blast
  have all2: "list_all2 (\<lambda>e l. to_spec_scan_data s (primary_descriptor st) e = Inr l)
                (primary_events st ds) lines"
    by (rule try_map_all2 [OF tm])
  have len: "length (data_lines (manager st)) = length (primary_events st ds)"
    using list_all2_lengthD [OF all2] dl by simp
  have "list_all2
          (\<lambda>e l. fst (path, l @ nl) = path
             \<and> (\<exists>pos cols vals.
                   get_motor_position s e = Inr pos
                 \<and> get_scan_data_column_names s (primary_descriptor st) = Inr cols
                 \<and> try_map (getitem (event_data e)) cols = Inr vals
                 \<and> snd (path, l @ nl)
                       = nl @ str_val pos @ ''  '' @ str_int (event_time e) @ '' ''
                            @ str_val (get_acq_time s (VInt (- 1))) @ '' ''
                            @ join '' '' (map str_val vals) @ nl))
          (primary_events st ds) lines"
    using all2
  proof (rule list_all2_mono)
    fix e l assume "to_spec_scan_data s (primary_descriptor st) e = Inr l"
    from to_spec_scan_data_text [OF this]
    show "fst (path, l @ nl) = path
             \<and> (\<exists>pos cols vals.
                   get_motor_position s e = Inr pos
                 \<and> get_scan_data_column_names s (primary_descriptor st) = Inr cols
                 \<and> try_map (getitem (event_data e)) cols = Inr vals
                 \<and> snd (path, l @ nl)
                       = nl @ str_val pos @ ''  '' @ str_int (event_time e) @ '' ''
                            @ str_val (get_acq_time s (VInt (- 1))) @ '' ''
                            @ join '' '' (map str_val vals) @ nl)"
      by auto
  qed
  then have texts: "list_all2
          (\<lambda>e w. fst w = path
             \<and> (\<exists>pos cols vals.
                   get_motor_position s e = Inr pos
                 \<and> get_scan_data_column_names s (primary_descriptor st) = Inr cols
                 \<and> try_map (getitem (event_data e)) cols = Inr vals
                 \<and> snd w = nl @ str_val pos @ ''  '' @ str_int (event_time e) @ '' ''
                             @ str_val (get_acq_time s (VInt (- 1))) @ '' ''
                             @ join '' '' (map str_val vals) @ nl))
          (primary_events st ds) (data_lines (manager st))"
    unfolding dl by (simp only: list_all2_map2)
  show ?thesis
    using len p texts n by (auto simp: event_baseline)
qed

lemma full_run_state:
  "snd (feed utc fresh full_run_docs) = None"
  "primary_uid_apart (fst (feed utc fresh full_run_docs)) (baseline_uids (tl full_run_docs))"
  "primary_events (fst (feed utc fresh full_run_docs)) (tl full_run_docs)
     = [det_event0, det_event1]"
  "length (filter is_event (tl full_run_docs)) = 3"
  "num_baseline_events_received (fst (feed utc fresh full_run_docs)) = 1"
  "\<forall>d \<in> set (tl full_run_docs). \<not> is_start d"
  "full_run_docs = Start count_start # tl full_run_docs"
  "data_lines (manager (fst (feed utc fresh full_run_docs)))
     = [(''out/run1.spec'', nl @ ''0  1000000001 -1 1.5'' @ nl),
        (''out/run1.spec'', nl @ ''1  1000000002 -1 2.5'' @ nl)]"
  by code_simp+

theorem data_lines_match_primary_events_witness:
  "snd (feed utc fresh full_run_docs) = None
   \<and> full_run_docs = Start count_start # tl full_run_docs
   \<and> mgr_log (MultiFileManager ''out'' (\<lambda>p. [])) = []
   \<and> primary_uid_apart (fst (feed utc fresh full_run_docs)) (baseline_uids (tl full_run_docs))
   \<and> primary_events (fst (feed utc fresh full_run_docs)) (tl full_run_docs)
       = [det_event0, det_event1]
   \<and> length (data_lines (manager (fst (feed utc fresh full_run_docs)))) = 2
   \<and> data_lines (manager (fst (feed utc fresh full_run_docs)))
       = [(''out/run1.spec'', nl @ ''0  1000000001 -1 1.5'' @ nl),
          (''out/run1.spec'', nl @ ''1  1000000002 -1 2.5'' @ nl)]
   \<and> num_events_received (fst (feed utc fresh full_run_docs)) = 2
   \<and> num_baseline_events_received (fst (feed utc fresh full_run_docs)) = 1
   \<and> length (filter is_event (tl full_run_docs)) = 3"
proof -
  let ?st = "fst (feed utc fresh full_run_docs)"
  have a: "feed utc (init (MultiFileManager ''out'' (\<lambda>p. [])) default_file_prefix False)
             (Start count_start # tl full_run_docs) = (?st, None)"
    using full_run_state(1) full_run_state(7) by (simp add: fresh_def prod_eq_iff)
  have b: "mgr_log (MultiFileManager ''out'' (\<lambda>p. [])) = []"
    by (simp add: MultiFileManager_def)
  from data_lines_match_primary_events [OF a full_run_state(6) b full_run_state(2)]
  have "length (data_lines (manager ?st)) = length (primary_events ?st (tl full_run_docs))"
    "num_events_received ?st = length (primary_events ?st (tl full_run_docs))"
    by blast+
  then show ?thesis using full_run_state(1,2,3,4,5,7,8) b by simp
qed

section \<open>The file header\<close>

lemma mgr_write_simps [simp]:
  "mgr_written (mgr_write m p k t) q
     = (if q = p then mgr_written m p @ [(k, t)] else mgr_written m q)"
  "mgr_existing (mgr_write m p k t) = mgr_existing m"
  "file_text (mgr_write m p k t) q = (if q = p then file_text m p @ t else file_text m q)"
  "mgr_artifacts (mgr_write m p k t) = mgr_artifacts m"
  by (auto simp: mgr_write_def mgr_written_def file_text_def)

lemma file_headers_write [simp]:
  "file_headers (mgr_write m p k t) q
     = (if q = p \<and> k = FileHeaderW then file_headers m p + 1 else file_headers m q)"
  by (auto simp: file_headers_def)

lemma file_header_invariant_same:
  assumes "file_header_invariant st" and "manager st1 = manager st"
    and "open_file st1 = open_file st"
    and "has_not_written_file_header st1 = has_not_written_file_header st"
  shows "file_header_invariant st1"
  using assms by (simp add: file_header_invariant_def)

lemma file_header_invariant_write:
  assumes "file_header_invariant st" and "manager st1 = mgr_write (manager st) p k t"
    and "k \<noteq> FileHeaderW"
    and "open_file st1 = open_file st"
    and "has_not_written_file_header st1 = has_not_written_file_header st"
  shows "file_header_invariant st1"
  using assms by (simp add: file_header_invariant_def)

lemma file_header_text_nonempty: "SPEC_FILE_HEADER_TEMPLATE md \<noteq> []"
  by (simp add: SPEC_FILE_HEADER_TEMPLATE_def)

lemma file_header_invariant_header:
  assumes "file_header_invariant st" and "has_not_written_file_header st"
    and "open_file st = Some p"
    and "manager st1 = mgr_write (manager st) p FileHeaderW (SPEC_FILE_HEADER_TEMPLATE md)"
    and "\<not> has_not_written_file_header st1"
  shows "file_header_invariant st1"
  using assms file_header_text_nonempty [of md]
  by (auto simp: file_header_invariant_def)

lemma start_invariant:
  assumes "file_header_invariant st" and "start st s = (st1, r)"
  shows "file_header_invariant st1"
proof (cases r)
  case (Some err)
  then have "manager st1 = manager st" "open_file st1 = open_file st"
    "has_not_written_file_header st1 = has_not_written_file_header st"
    using assms(2)
    by (auto simp: start_def Let_def split: sum.splits option.splits)
  then show ?thesis using assms(1) by (rule file_header_invariant_same [rotated])
next
  case None
  then obtain prefix path where
    st1: "st1 = st\<lparr> start_of := Some s,
                    manager := (manager st)\<lparr> mgr_artifacts := mgr_artifacts (manager st) @ [path] \<rparr>,
                    open_file := Some path,
                    has_not_written_file_header :=
                      (tell ((manager st)\<lparr> mgr_artifacts := mgr_artifacts (manager st) @ [path] \<rparr>)
                         path = 0) \<rparr>"
    using assms(2)
    by (auto simp: start_def Let_def mgr_open_def split: sum.splits option.splits if_splits)
  have w: "\<And>q. mgr_written ((manager st)\<lparr> mgr_artifacts := mgr_artifacts (manager st) @ [path] \<rparr>) q
             = mgr_written (manager st) q"
    by (simp add: mgr_written_def)
  show ?thesis
    using assms(1) unfolding st1
    by (auto simp: file_header_invariant_def file_headers_def w file_text_def tell_def)
qed

lemma stop_invariant:
  assumes "file_header_invariant st" and "stop st d = (st1, r)"
  shows "file_header_invariant st1"
proof (cases "file_write st TrailerW (stop_message d)")
  case (Inl err)
  then have "st1 = st" using assms(2) by (simp add: stop_def)
  then show ?thesis using assms(1) by simp
next
  case (Inr st2)
  then have "st1 = st2" using assms(2) by (simp add: stop_def)
  with file_write_manager [OF Inr] file_write_fields [OF Inr] assms(1)
  show ?thesis by (auto intro: file_header_invariant_write)
qed

lemma event_file_header_invariant:
  assumes "file_header_invariant st" and "event_file_header tz st = Inr st1"
  shows "file_header_invariant st1"
  using event_file_header_cases [OF assms(2)] event_file_header_fields [OF assms(2)] assms(1)
  by (auto intro: file_header_invariant_header)

lemma event_scan_header_invariant:
  assumes "file_header_invariant st" and "event_scan_header tz st = Inr st1"
  shows "file_header_invariant st1"
  using event_scan_header_cases [OF assms(2)] event_scan_header_fields [OF assms(2)] assms(1)
  by (auto intro: file_header_invariant_write)

lemma event_data_line_invariant:
  assumes "file_header_invariant st" and "event_data_line st e = (st1, r)"
  shows "file_header_invariant st1"
proof (cases r)
  case None
  with event_data_line_ok [of st e st1] event_data_line_fields [OF assms(2)] assms
  show ?thesis by (auto intro: file_header_invariant_write)
next
  case (Some err)
  with event_data_line_raised [of st e st1 err] event_data_line_fields [OF assms(2)] assms
  show ?thesis by (auto intro: file_header_invariant_same)
qed

lemma event_invariant:
  assumes "file_header_invariant st" and "event tz st e = (st1, r)"
  shows "file_header_invariant st1"
proof (cases "is_baseline_event st e")
  case True
  then show ?thesis using assms
    by (auto simp: event_baseline intro: file_header_invariant_same)
next
  case False
  from event_primary_steps [OF assms(2) False] show ?thesis
  proof (elim disjE exE conjE)
    assume "st1 = st"
    then show ?thesis using assms(1) by simp
  next
    fix st2 err assume "event_file_header tz st = Inr st2" "st1 = st2"
    then show ?thesis using event_file_header_invariant [OF assms(1)] by simp
  next
    fix st2 st3
    assume a: "event_file_header tz st = Inr st2" "event_scan_header tz st2 = Inr st3"
      "event_data_line st3 e = (st1, r)"
    show ?thesis
      by (rule event_data_line_invariant [OF
            event_scan_header_invariant [OF event_file_header_invariant [OF assms(1) a(1)] a(2)]
            a(3)])
  qed
qed

lemma dispatch_invariant:
  assumes "file_header_invariant st" and "dispatch tz st d = (st1, r)"
  shows "file_header_invariant st1"
proof (cases d)
  case (Start s)
  then show ?thesis using assms start_invariant by simp
next
  case (Descriptor dd)
  then show ?thesis using assms descriptor_fields [of st dd st1 r]
    by (auto intro: file_header_invariant_same)
next
  case (Event e)
  then show ?thesis using assms event_invariant by simp
next
  case (Stop sd)
  then show ?thesis using assms stop_invariant by simp
qed (use assms in auto)

lemma feed_invariant:
  assumes "file_header_invariant st" and "feed tz st docs = (st1, r)"
  shows "file_header_invariant st1"
  using assms
proof (induction docs arbitrary: st)
  case Nil
  then show ?case by simp
next
  case (Cons d ds)
  obtain st2 r2 where step: "dispatch tz st d = (st2, r2)" by (cases "dispatch tz st d")
  note inv = dispatch_invariant [OF Cons.prems(1) step]
  show ?case
  proof (cases r2)
    case None
    then have "feed tz st2 ds = (st1, r)" using Cons.prems(2) step by simp
    from Cons.IH [OF inv this] show ?thesis .
  next
    case (Some err)
    then show ?thesis using Cons.prems(2) step inv by simp
  qed
qed

lemma init_invariant:
  assumes "mgr_log mgr = []"
  shows "file_header_invariant (init mgr prefix fl)"
  using assms
  by (simp add: file_header_invariant_def init_def file_headers_def mgr_written_def count_kind_def)

lemma event_existing:
  assumes "event tz st e = (st1, r)"
  shows "mgr_existing (manager st1) = mgr_existing (manager st)"
proof (cases "is_baseline_event st e")
  case True
  then show ?thesis using assms by (auto simp: event_baseline)
next
  case False
  from event_primary_steps [OF assms False] show ?thesis
  proof (elim disjE exE conjE)
    assume "st1 = st"
    then show ?thesis by simp
  next
    fix st2 err assume "event_file_header tz st = Inr st2" "st1 = st2"
    then show ?thesis using event_file_header_cases [of tz st st2] by auto
  next
    fix st2 st3
    assume a: "event_file_header tz st = Inr st2" "event_scan_header tz st2 = Inr st3"
      "event_data_line st3 e = (st1, r)"
    have 1: "mgr_existing (manager st2) = mgr_existing (manager st)"
      using event_file_header_cases [OF a(1)] by auto
    have 2: "mgr_existing (manager st3) = mgr_existing (manager st2)"
      using event_scan_header_cases [OF a(2)] by auto
    have 3: "mgr_existing (manager st1) = mgr_existing (manager st3)"
      using event_data_line_ok [of st3 e st1] event_data_line_raised [of st3 e st1] a(3)
      by (cases r) auto
    show ?thesis using 1 2 3 by simp
  qed
qed

lemma dispatch_existing:
  assumes "dispatch tz st d = (st1, r)"
  shows "mgr_existing (manager st1) = mgr_existing (manager st)"
proof (cases d)
  case (Start s)
  then show ?thesis using assms start_fields(8) [of st s st1 r] by simp
next
  case (Descriptor dd)
  then show ?thesis using assms descriptor_fields(8) [of st dd st1 r] by simp
next
  case (Event e)
  then show ?thesis using assms event_existing by simp
next
  case (Stop sd)
  then show ?thesis using assms
    by (auto simp: stop_def file_write_def split: sum.splits option.splits)
qed (use assms in auto)

lemma feed_existing:
  assumes "feed tz st docs = (st1, r)"
  shows "mgr_existing (manager st1) = mgr_existing (manager st)"
  using assms
proof (induction docs arbitrary: st)
  case Nil
  then show ?case by simp
next
  case (Cons d ds)
  obtain st2 r2 where step: "dispatch tz st d = (st2, r2)" by (cases "dispatch tz st d")
  note ex = dispatch_existing [OF step]
  show ?case
  proof (cases r2)
    case None
    then have "feed tz st2 ds = (st1, r)" using Cons.prems step by simp
    from Cons.IH [OF this] ex show ?thesis by simp
  next
    case (Some err)
    then show ?thesis using Cons.prems step ex by simp
  qed
qed

lemma file_header_once:
  assumes "mgr_log mgr = []" and "feed tz (init mgr prefix fl) docs = (st, r)"
  shows "count_kind FileHeaderW (mgr_written (manager st) p) \<le> 1
       \<and> (mgr_existing mgr p \<noteq> [] \<longrightarrow> count_kind FileHeaderW (mgr_written (manager st) p) = 0)
       \<and> (0 < count_kind FileHeaderW (mgr_written (manager st) p) \<longrightarrow>
            file_text (manager st) p \<noteq> [])"
proof -
  have inv: "file_header_invariant st"
    by (rule feed_invariant [OF init_invariant [OF assms(1)] assms(2)])
  have ex: "mgr_existing (manager st) = mgr_existing mgr"
    using feed_existing [OF assms(2)] by (simp add: init_fields)
  show ?thesis
    using inv ex unfolding file_header_invariant_def file_headers_def
    by (metis gr_zeroI)
qed

lemma event_primary_flags:
  assumes "event tz st e = (st', None)" and "\<not> is_baseline_event st e"
  shows "\<not> has_not_written_scan_header st'" "\<not> has_not_written_file_header st'"
proof -
  from event_primary_steps [OF assms]
  obtain st1 st2 where fh: "event_file_header tz st = Inr st1"
    and sh: "event_scan_header tz st1 = Inr st2"
    and dl: "event_data_line st2 e = (st', None)"
    by auto
  show "\<not> has_not_written_scan_header st'" "\<not> has_not_written_file_header st'"
    using event_file_header_fields(10) [OF fh] event_scan_header_fields(7,10) [OF sh]
      event_data_line_fields(7,8) [OF dl]
    by simp_all
qed

lemma event_scan_flag_stays_down:
  assumes "event tz st e = (st1, r)" and "\<not> has_not_written_scan_header st"
  shows "\<not> has_not_written_scan_header st1"
proof (cases "is_baseline_event st e")
  case True
  then show ?thesis using assms by (auto simp: event_baseline)
next
  case False
  from event_primary_steps [OF assms(1) False] show ?thesis
  proof (elim disjE exE conjE)
    assume "st1 = st"
    then show ?thesis using assms(2) by simp
  next
    fix st2 err assume "event_file_header tz st = Inr st2" "st1 = st2"
    then show ?thesis using event_file_header_fields(7) [of tz st st2] assms(2) by simp
  next
    fix st2 st3
    assume a: "event_file_header tz st = Inr st2" "event_scan_header tz st2 = Inr st3"
      "event_data_line st3 e = (st1, r)"
    show ?thesis
      using event_scan_header_fields(10) [OF a(2)] event_data_line_fields(8) [OF a(3)] by simp
  qed
qed

lemma dispatch_scan_flag_stays_down:
  assumes "dispatch tz st d = (st1, r)" and "\<not> has_not_written_scan_header st"
  shows "\<not> has_not_written_scan_header st1"
proof (cases d)
  case (Event e)
  then show ?thesis using assms event_scan_flag_stays_down by simp
qed (use assms in \<open>auto dest: start_fields descriptor_fields stop_fields\<close>)

lemma feed_scan_flag_stays_down:
  assumes "feed tz st docs = (st1, r)" and "\<not> has_not_written_scan_header st"
  shows "\<not> has_not_written_scan_header st1"
  using assms
proof (induction docs arbitrary: st)
  case Nil
  then show ?case by simp
next
  case (Cons d ds)
  obtain st2 r2 where step: "dispatch tz st d = (st2, r2)" by (cases "dispatch tz st d")
  note down = dispatch_scan_flag_stays_down [OF step Cons.prems(2)]
  show ?case
  proof (cases r2)
    case None
    then have "feed tz st2 ds = (st1, r)" using Cons.prems(1) step by simp
    from Cons.IH [OF this down] show ?thesis .
  next
    case (Some err)
    then show ?thesis using Cons.prems(1) step down by simp
  qed
qed

lemma feed_before_first_primary:
  assumes "feed tz st docs = (st1, None)" and "\<forall>d \<in> set docs. \<not> is_start d"
    and "has_not_written_scan_header st1"
  shows "has_not_written_file_header st1 = has_not_written_file_header st
       \<and> open_file st1 = open_file st"
  using assms
proof (induction docs arbitrary: st)
  case Nil
  then show ?case by simp
next
  case (Cons d ds)
  obtain st2 r2 where step: "dispatch tz st d = (st2, r2)" by (cases "dispatch tz st d")
  have r2: "r2 = None" using Cons.prems(1) step by (cases r2) simp_all
  have rest: "feed tz st2 ds = (st1, None)" using Cons.prems(1) step r2 by simp
  have IH: "has_not_written_file_header st1 = has_not_written_file_header st2
       \<and> open_file st1 = open_file st2"
    using Cons.IH [OF rest] Cons.prems(2,3) by simp
  have up: "has_not_written_scan_header st2"
    using feed_scan_flag_stays_down [OF rest] Cons.prems(3) by blast
  have "has_not_written_file_header st2 = has_not_written_file_header st
       \<and> open_file st2 = open_file st"
  proof (cases d)
    case (Start s)
    then show ?thesis using Cons.prems(2) by (simp add: is_start_def)
  next
    case (Descriptor dd)
    then show ?thesis using step descriptor_fields [of st dd st2 r2] by simp
  next
    case (Event e)
    then have ev: "event tz st e = (st2, None)" using step r2 by simp
    show ?thesis
    proof (cases "is_baseline_event st e")
      case True
      then show ?thesis using ev by (auto simp: event_baseline)
    next
      case False
      from event_primary_flags(1) [OF ev False] up show ?thesis by simp
    qed
  next
    case (Stop sd)
    then show ?thesis using step stop_fields [of st sd st2 r2] by simp
  qed (use step in auto)
  then show ?case using IH by simp
qed

lemma file_header_md_fields:
  assumes "file_header_md tz s filepath bd = Inr md"
  shows "fh_filename md = basename filepath" "fh_unix_time md = start_time s"
  using assms by (auto simp: file_header_md_def Let_def try_bind_eq_Inr)

lemma scan_header_md_scan_id:
  assumes "scan_header_md tz s pd be = Inr md"
  shows "start_scan_id s = Some (sh_scan_id md)"
  using assms
  by (auto simp: scan_header_md_def Let_def try_bind_eq_Inr split: option.splits)

lemma first_primary_event_headers:
  assumes "start (init mgr prefix fl) s = (st1, None)"
    and "feed tz st1 ds = (st2, None)" and "\<forall>d \<in> set ds. \<not> is_start d"
    and "has_not_written_scan_header st2"
    and "\<not> is_baseline_event st2 e" and "event tz st2 e = (st3, None)"
  shows "\<exists>path smd line.
           open_file st1 = Some path
         \<and> scan_header_md tz s (primary_descriptor st2) (baseline_event st2) = Inr smd
         \<and> to_spec_scan_data s (primary_descriptor st2) e = Inr line
         \<and> (if tell (manager st1) path = 0
             then \<exists>fmd. file_header_md tz s path (baseline_descriptor st2) = Inr fmd
                       \<and> mgr_log (manager st3) = mgr_log (manager st2)
                           @ [(path, FileHeaderW, SPEC_FILE_HEADER_TEMPLATE fmd),
                              (path, ScanHeaderW, SPEC_SCAN_HEADER_TEMPLATE smd),
                              (path, DataLineW, line @ nl)]
             else mgr_log (manager st3) = mgr_log (manager st2)
                    @ [(path, ScanHeaderW, SPEC_SCAN_HEADER_TEMPLATE smd),
                       (path, DataLineW, line @ nl)])"
proof -
  from assms(1) obtain path where p1: "open_file st1 = Some path"
    and f1: "has_not_written_file_header st1 = (tell (manager st1) path = 0)"
    and s1: "start_of st1 = Some s"
    and a1: "mgr_artifacts (manager st1) = mgr_artifacts mgr @ [path]"
    by (auto simp: start_def Let_def mgr_open_def init_def split: sum.splits option.splits if_splits)
  from feed_before_first_primary [OF assms(2,3,4)] p1 f1
  have f2: "has_not_written_file_header st2 = (tell (manager st1) path = 0)"
    by simp
  from feed_same_run [OF assms(2,3)] p1 s1 a1
  have p2: "open_file st2 = Some path" and s2: "start_of st2 = Some s"
    and a2: "mgr_artifacts (manager st2) = mgr_artifacts mgr @ [path]"
    by simp_all
  from event_primary_written [OF assms(6,5)] p2 s2
  obtain pd line fh sh where pd: "primary_descriptor st2 = Some pd"
    and line: "to_spec_scan_data s (Some pd) e = Inr line"
    and log: "mgr_log (manager st3)
                = mgr_log (manager st2) @ fh @ sh @ [(path, DataLineW, line @ nl)]"
    and fh: "if has_not_written_file_header st2
             then \<exists>filepath md.
                    mgr_artifacts (manager st2) = [filepath]
                  \<and> file_header_md tz s filepath (baseline_descriptor st2) = Inr md
                  \<and> fh = [(path, FileHeaderW, SPEC_FILE_HEADER_TEMPLATE md)]
             else fh = []"
    and sh: "if has_not_written_scan_header st2
             then \<exists>md. scan_header_md tz s (Some pd) (baseline_event st2) = Inr md
                      \<and> sh = [(path, ScanHeaderW, SPEC_SCAN_HEADER_TEMPLATE md)]
             else sh = []"
    by auto
  from sh assms(4) obtain smd
    where smd: "scan_header_md tz s (Some pd) (baseline_event st2) = Inr smd"
    and sh': "sh = [(path, ScanHeaderW, SPEC_SCAN_HEADER_TEMPLATE smd)]"
    by auto
  show ?thesis
  proof (cases "tell (manager st1) path = 0")
    case True
    with fh f2 obtain filepath fmd where fp: "mgr_artifacts (manager st2) = [filepath]"
      and fmd: "file_header_md tz s filepath (baseline_descriptor st2) = Inr fmd"
      and fh': "fh = [(path, FileHeaderW, SPEC_FILE_HEADER_TEMPLATE fmd)]"
      by auto
    have "filepath = path" using fp a2 by (cases "mgr_artifacts mgr") simp_all
    then show ?thesis using p1 True log sh' fh' fmd smd line pd by auto
  next
    case False
    with fh f2 have "fh = []" by simp
    then show ?thesis using p1 False log sh' smd line pd by auto
  qed
qed

subsection \<open>A file header can be told by its text\<close>

lemma reads_as_tagged_simps:
  "reads_as_tagged (p, FileHeaderW, SPEC_FILE_HEADER_TEMPLATE fmd)"
  "reads_as_tagged (p, ScanHeaderW, SPEC_SCAN_HEADER_TEMPLATE smd)"
  "reads_as_tagged (p, TrailerW, stop_message sd)"
  "to_spec_scan_data s pd e = Inr line \<Longrightarrow> reads_as_tagged (p, DataLineW, line @ nl)"
proof -
  show "reads_as_tagged (p, FileHeaderW, SPEC_FILE_HEADER_TEMPLATE fmd)"
    by (simp add: reads_as_tagged_def SPEC_FILE_HEADER_TEMPLATE_def)
  show "reads_as_tagged (p, ScanHeaderW, SPEC_SCAN_HEADER_TEMPLATE smd)"
    by (simp add: reads_as_tagged_def SPEC_SCAN_HEADER_TEMPLATE_def nl_def)
  show "reads_as_tagged (p, TrailerW, stop_message sd)"
    by (simp add: reads_as_tagged_def stop_message_def nl_def Let_def)
  show "reads_as_tagged (p, DataLineW, line @ nl)" if "to_spec_scan_data s pd e = Inr line"
    using to_spec_scan_data_text [OF that] by (auto simp: reads_as_tagged_def nl_def)
qed

lemma event_reads_as_tagged:
  assumes "list_all reads_as_tagged (mgr_log (manager st))" and "event tz st e = (st1, r)"
  shows "list_all reads_as_tagged (mgr_log (manager st1))"
proof (cases "is_baseline_event st e")
  case True
  then show ?thesis using assms by (auto simp: event_baseline)
next
  case False
  have fh: "list_all reads_as_tagged (mgr_log (manager st2))"
    if "event_file_header tz st = Inr st2" for st2
    using event_file_header_cases [OF that] assms(1)
    by (auto simp: mgr_write_def reads_as_tagged_simps)
  have sh: "list_all reads_as_tagged (mgr_log (manager st3))"
    if "event_scan_header tz st2 = Inr st3" "list_all reads_as_tagged (mgr_log (manager st2))"
    for st2 st3
    using event_scan_header_cases [OF that(1)] that(2)
    by (auto simp: mgr_write_def reads_as_tagged_simps)
  from event_primary_steps [OF assms(2) False] show ?thesis
  proof (elim disjE exE conjE)
    assume "st1 = st"
    then show ?thesis using assms(1) by simp
  next
    fix st2 err assume "event_file_header tz st = Inr st2" "st1 = st2"
    then show ?thesis using fh by simp
  next
    fix st2 st3
    assume a: "event_file_header tz st = Inr st2" "event_scan_header tz st2 = Inr st3"
      "event_data_line st3 e = (st1, r)"
    note ok3 = sh [OF a(2) fh [OF a(1)]]
    show ?thesis
    proof (cases r)
      case None
      with event_data_line_ok [of st3 e st1] a(3) ok3 show ?thesis
        by (auto simp: mgr_write_def reads_as_tagged_simps)
    next
      case (Some err)
      with event_data_line_raised [of st3 e st1 err] a(3) ok3 show ?thesis by simp
    qed
  qed
qed

lemma dispatch_reads_as_tagged:
  assumes "list_all reads_as_tagged (mgr_log (manager st))" and "dispatch tz st d = (st1, r)"
  shows "list_all reads_as_tagged (mgr_log (manager st1))"
proof (cases d)
  case (Start s)
  then show ?thesis using assms start_fields(7) [of st s st1 r] by simp
next
  case (Descriptor dd)
  then show ?thesis using assms descriptor_fields(8) [of st dd st1 r] by simp
next
  case (Event e)
  then show ?thesis using assms event_reads_as_tagged by simp
next
  case (Stop sd)
  then show ?thesis using assms stop_log [of st sd st1 r]
    by (auto simp: reads_as_tagged_simps)
qed (use assms in auto)

lemma feed_reads_as_tagged:
  assumes "list_all reads_as_tagged (mgr_log (manager st))" and "feed tz st docs = (st1, r)"
  shows "list_all reads_as_tagged (mgr_log (manager st1))"
  using assms
proof (induction docs arbitrary: st)
  case Nil
  then show ?case by simp
next
  case (Cons d ds)
  obtain st2 r2 where step: "dispatch tz st d = (st2, r2)" by (cases "dispatch tz st d")
  note ok = dispatch_reads_as_tagged [OF Cons.prems(1) step]
  show ?case
  proof (cases r2)
    case None
    then have "feed tz st2 ds = (st1, r)" using Cons.prems(2) step by simp
    from Cons.IH [OF ok this] show ?thesis .
  next
    case (Some err)
    then show ?thesis using Cons.prems(2) step ok by simp
  qed
qed

lemma file_header_once_by_text:
  assumes "mgr_log mgr = []" and "feed tz (init mgr prefix fl) docs = (st, r)"
  shows "list_all reads_as_tagged (mgr_log (manager st))"
  by (rule feed_reads_as_tagged [OF _ assms(2)]) (simp add: init_fields assms(1))


text \<open>
  C4. First part: whatever documents a fresh Serializer is fed, over a manager that has
  written nothing yet, every path has received at most one file header, none at all if
  it held something when the manager came to it, and a path that has received one is no
  longer empty, so that a later run on the same path finds a non-zero position and writes
  none; and the file headers are the writes that begin with \<open>#F\<close>, every other write
  beginning with a newline. Second part: in a run, \<open>start\<close> opens the file; at the first
  event that is not a baseline event (the scan header still unwritten, no further start
  document in between), the file receives the file header, then the scan header, then the
  data line if the position after opening was zero, and the scan header and the data line
  alone if it was not. The file header is the six lines \<open>#F\<close>, \<open>#E\<close>, \<open>#D\<close>, \<open>#C\<close>, \<open>#O0\<close>
  and \<open>#o0\<close> made from the start document, the path and the baseline descriptor; the scan
  header is the block from \<open>#S\<close> to \<open>#L\<close> made from the start document, the primary
  descriptor and the baseline event; the data line is the rendered line of the event.
\<close>

theorem file_header_at_most_once:
  "(mgr_log mgr = [] \<and> feed tz (init mgr prefix fl) docs = (st, r) \<longrightarrow>
       count_kind FileHeaderW (mgr_written (manager st) p) \<le> 1
     \<and> (mgr_existing mgr p \<noteq> [] \<longrightarrow> count_kind FileHeaderW (mgr_written (manager st) p) = 0)
     \<and> (0 < count_kind FileHeaderW (mgr_written (manager st) p) \<longrightarrow>
          file_text (manager st) p \<noteq> [])
     \<and> list_all reads_as_tagged (mgr_log (manager st)))
   \<and> (start (init mgr2 prefix2 fl2) s = (st1, None)
       \<and> feed tz2 st1 ds = (st2, None) \<and> (\<forall>d \<in> set ds. \<not> is_start d)
       \<and> has_not_written_scan_header st2
       \<and> \<not> is_baseline_event st2 e \<and> event tz2 st2 e = (st3, None) \<longrightarrow>
       (\<exists>path smd sh line.
           open_file st1 = Some path
         \<and> scan_header_md tz2 s (primary_descriptor st2) (baseline_event st2) = Inr smd
         \<and> start_scan_id s = Some (sh_scan_id smd)
         \<and> sh = nl @ nl
               @ ''#S '' @ str_int (sh_scan_id smd) @ '' '' @ sh_command smd @ nl
               @ ''#D '' @ sh_readable_time smd @ nl
               @ ''#T '' @ str_val (sh_acq_time smd) @ ''  (Seconds)'' @ nl
               @ ''#P0 '' @ join '' '' (map str_val (sh_positioner_positions smd)) @ nl
               @ ''#N '' @ str_int (sh_num_columns smd) @ nl
               @ ''#L '' @ sh_motor_name smd @ ''  Epoch  Seconds  ''
               @ join ''  '' (sh_data_keys smd)
         \<and> to_spec_scan_data s (primary_descriptor st2) e = Inr line
         \<and> (if tell (manager st1) path = 0
             then \<exists>fmd. file_header_md tz2 s path (baseline_descriptor st2) = Inr fmd
                       \<and> mgr_log (manager st3) = mgr_log (manager st2)
                           @ [(path, FileHeaderW,
                                 ''#F '' @ basename path @ nl
                               @ ''#E '' @ str_int (start_time s) @ nl
                               @ ''#D '' @ fh_readable_time fmd @ nl
                               @ ''#C '' @ fh_owner fmd @ ''  User = '' @ fh_owner fmd @ nl
                               @ ''#O0 '' @ join ''  '' (fh_positioner_variable_sources fmd) @ nl
                               @ ''#o0 '' @ join '' '' (fh_positioner_variable_names fmd)),
                              (path, ScanHeaderW, sh), (path, DataLineW, line @ nl)]
             else mgr_log (manager st3) = mgr_log (manager st2)
                    @ [(path, ScanHeaderW, sh), (path, DataLineW, line @ nl)])))"
proof (intro conjI impI)
  assume a: "mgr_log mgr = [] \<and> feed tz (init mgr prefix fl) docs = (st, r)"
  then have a1: "mgr_log mgr = []" and a2: "feed tz (init mgr prefix fl) docs = (st, r)"
    by simp_all
  show "count_kind FileHeaderW (mgr_written (manager st) p) \<le> 1"
    using file_header_once [OF a1 a2, of p] by simp
  show "count_kind FileHeaderW (mgr_written (manager st) p) = 0" if "mgr_existing mgr p \<noteq> []"
    using file_header_once [OF a1 a2, of p] that by simp
  show "file_text (manager st) p \<noteq> []" if "0 < count_kind FileHeaderW (mgr_written (manager st) p)"
    using file_header_once [OF a1 a2, of p] that by simp
  show "list_all reads_as_tagged (mgr_log (manager st))"
    by (rule file_header_once_by_text [OF a1 a2])
next
  assume b: "start (init mgr2 prefix2 fl2) s = (st1, None)
       \<and> feed tz2 st1 ds = (st2, None) \<and> (\<forall>d \<in> set ds. \<not> is_start d)
       \<and> has_not_written_scan_header st2
       \<and> \<not> is_baseline_event st2 e \<and> event tz2 st2 e = (st3, None)"
  from first_primary_event_headers [of mgr2 prefix2 fl2 s st1 tz2 ds st2 e st3] b
  obtain path smd line where p: "open_file st1 = Some path"
    and smd: "scan_header_md tz2 s (primary_descriptor st2) (baseline_event st2) = Inr smd"
    and line: "to_spec_scan_data s (primary_descriptor st2) e = Inr line"
    and log: "if tell (manager st1) path = 0
             then \<exists>fmd. file_header_md tz2 s path (baseline_descriptor st2) = Inr fmd
                       \<and> mgr_log (manager st3) = mgr_log (manager st2)
                           @ [(path, FileHeaderW, SPEC_FILE_HEADER_TEMPLATE fmd),
                              (path, ScanHeaderW, SPEC_SCAN_HEADER_TEMPLATE smd),
                              (path, DataLineW, line @ nl)]
             else mgr_log (manager st3) = mgr_log (manager st2)
                    @ [(path, ScanHeaderW, SPEC_SCAN_HEADER_TEMPLATE smd),
                       (path, DataLineW, line @ nl)]"
    by blast
  have sh: "SPEC_SCAN_HEADER_TEMPLATE smd = nl @ nl
               @ ''#S '' @ str_int (sh_scan_id smd) @ '' '' @ sh_command smd @ nl
               @ ''#D '' @ sh_readable_time smd @ nl
               @ ''#T '' @ str_val (sh_acq_time smd) @ ''  (Seconds)'' @ nl
               @ ''#P0 '' @ join '' '' (map str_val (sh_positioner_positions smd)) @ nl
               @ ''#N '' @ str_int (sh_num_columns smd) @ nl
               @ ''#L '' @ sh_motor_name smd @ ''  Epoch  Seconds  ''
               @ join ''  '' (sh_data_keys smd)"
    by (simp add: SPEC_SCAN_HEADER_TEMPLATE_def)
  have fh: "SPEC_FILE_HEADER_TEMPLATE fmd =
                                 ''#F '' @ basename path @ nl
                               @ ''#E '' @ str_int (start_time s) @ nl
                               @ ''#D '' @ fh_readable_time fmd @ nl
                               @ ''#C '' @ fh_owner fmd @ ''  User = '' @ fh_owner fmd @ nl
                               @ ''#O0 '' @ join ''  '' (fh_positioner_variable_sources fmd) @ nl
                               @ ''#o0 '' @ join '' '' (fh_positioner_variable_names fmd)"
    if "file_header_md tz2 s path bd = Inr fmd" for fmd bd
    using file_header_md_fields [OF that] by (simp add: SPEC_FILE_HEADER_TEMPLATE_def)
  show "\<exists>path smd sh line.
           open_file st1 = Some path
         \<and> scan_header_md tz2 s (primary_descriptor st2) (baseline_event st2) = Inr smd
         \<and> start_scan_id s = Some (sh_scan_id smd)
         \<and> sh = nl @ nl
               @ ''#S '' @ str_int (sh_scan_id smd) @ '' '' @ sh_command smd @ nl
               @ ''#D '' @ sh_readable_time smd @ nl
               @ ''#T '' @ str_val (sh_acq_time smd) @ ''  (Seconds)'' @ nl
               @ ''#P0 '' @ join '' '' (map str_val (sh_positioner_positions smd)) @ nl
               @ ''#N '' @ str_int (sh_num_columns smd) @ nl
               @ ''#L '' @ sh_motor_name smd @ ''  Epoch  Seconds  ''
               @ join ''  '' (sh_data_keys smd)
         \<and> to_spec_scan_data s (primary_descriptor st2) e = Inr line
         \<and> (if tell (manager st1) path = 0
             then \<exists>fmd. file_header_md tz2 s path (baseline_descriptor st2) = Inr fmd
                       \<and> mgr_log (manager st3) = mgr_log (manager st2)
                           @ [(path, FileHeaderW,
                                 ''#F '' @ basename path @ nl
                               @ ''#E '' @ str_int (start_time s) @ nl
                               @ ''#D '' @ fh_readable_time fmd @ nl
                               @ ''#C '' @ fh_owner fmd @ ''  User = '' @ fh_owner fmd @ nl
                               @ ''#O0 '' @ join ''  '' (fh_positioner_variable_sources fmd) @ nl
                               @ ''#o0 '' @ join '' '' (fh_positioner_variable_names fmd)),
                              (path, ScanHeaderW, sh), (path, DataLineW, line @ nl)]
             else mgr_log (manager st3) = mgr_log (manager st2)
                    @ [(path, ScanHeaderW, sh), (path, DataLineW, line @ nl)])"
  proof (rule exI [of _ path], rule exI [of _ smd],
      rule exI [of _ "SPEC_SCAN_HEADER_TEMPLATE smd"], rule exI [of _ line], intro conjI)
    show "open_file st1 = Some path" by (rule p)
    show "scan_header_md tz2 s (primary_descriptor st2) (baseline_event st2) = Inr smd"
      by (rule smd)
    show "start_scan_id s = Some (sh_scan_id smd)"
      by (rule scan_header_md_scan_id [OF smd])
    show "SPEC_SCAN_HEADER_TEMPLATE smd = nl @ nl
               @ ''#S '' @ str_int (sh_scan_id smd) @ '' '' @ sh_command smd @ nl
               @ ''#D '' @ sh_readable_time smd @ nl
               @ ''#T '' @ str_val (sh_acq_time smd) @ ''  (Seconds)'' @ nl
               @ ''#P0 '' @ join '' '' (map str_val (sh_positioner_positions smd)) @ nl
               @ ''#N '' @ str_int (sh_num_columns smd) @ nl
               @ ''#L '' @ sh_motor_name smd @ ''  Epoch  Seconds  ''
               @ join ''  '' (sh_data_keys smd)"
      by (rule sh)
    show "to_spec_scan_data s (primary_descriptor st2) e = Inr line" by (rule line)
    show "if tell (manager st1) path = 0
             then \<exists>fmd. file_header_md tz2 s path (baseline_descriptor st2) = Inr fmd
                       \<and> mgr_log (manager st3) = mgr_log (manager st2)
                           @ [(path, FileHeaderW,
                                 ''#F '' @ basename path @ nl
                               @ ''#E '' @ str_int (start_time s) @ nl
                               @ ''#D '' @ fh_readable_time fmd @ nl
                               @ ''#C '' @ fh_owner fmd @ ''  User = '' @ fh_owner fmd @ nl
                               @ ''#O0 '' @ join ''  '' (fh_positioner_variable_sources fmd) @ nl
                               @ ''#o0 '' @ join '' '' (fh_positioner_variable_names fmd)),
                              (path, ScanHeaderW, SPEC_SCAN_HEADER_TEMPLATE smd),
                              (path, DataLineW, line @ nl)]
             else mgr_log (manager st3) = mgr_log (manager st2)
                    @ [(path, ScanHeaderW, SPEC_SCAN_HEADER_TEMPLATE smd),
                       (path, DataLineW, line @ nl)]"
    proof (cases "tell (manager st1) path = 0")
      case True
      with log obtain fmd where
        fmd: "file_header_md tz2 s path (baseline_descriptor st2) = Inr fmd"
        and l: "mgr_log (manager st3) = mgr_log (manager st2)
                           @ [(path, FileHeaderW, SPEC_FILE_HEADER_TEMPLATE fmd),
                              (path, ScanHeaderW, SPEC_SCAN_HEADER_TEMPLATE smd),
                              (path, DataLineW, line @ nl)]"
        by auto
      have "mgr_log (manager st3) = mgr_log (manager st2)
                           @ [(path, FileHeaderW,
                                 ''#F '' @ basename path @ nl
                               @ ''#E '' @ str_int (start_time s) @ nl
                               @ ''#D '' @ fh_readable_time fmd @ nl
                               @ ''#C '' @ fh_owner fmd @ ''  User = '' @ fh_owner fmd @ nl
                               @ ''#O0 '' @ join ''  '' (fh_positioner_variable_sources fmd) @ nl
                               @ ''#o0 '' @ join '' '' (fh_positioner_variable_names fmd)),
                              (path, ScanHeaderW, SPEC_SCAN_HEADER_TEMPLATE smd),
                              (path, DataLineW, line @ nl)]"
        by (simp only: l fh [OF fmd])
      with fmd have ex: "\<exists>fmd. file_header_md tz2 s path (baseline_descriptor st2) = Inr fmd
                       \<and> mgr_log (manager st3) = mgr_log (manager st2)
                           @ [(path, FileHeaderW,
                                 ''#F '' @ basename path @ nl
                               @ ''#E '' @ str_int (start_time s) @ nl
                               @ ''#D '' @ fh_readable_time fmd @ nl
                               @ ''#C '' @ fh_owner fmd @ ''  User = '' @ fh_owner fmd @ nl
                               @ ''#O0 '' @ join ''  '' (fh_positioner_variable_sources fmd) @ nl
                               @ ''#o0 '' @ join '' '' (fh_positioner_variable_names fmd)),
                              (path, ScanHeaderW, SPEC_SCAN_HEADER_TEMPLATE smd),
                              (path, DataLineW, line @ nl)]"
        by blast
      show ?thesis by (subst if_P [OF True]) (rule ex)
    next
      case False
      then show ?thesis using log by simp
    qed
  qed
qed

lemma appending_run_state:
  "start (init (MultiFileManager ''out'' (\<lambda>p. ''#F run0.spec'')) default_file_prefix False)
     count_start = (appending, None)"
  "snd (feed utc appending [Descriptor det_descriptor]) = None"
  "has_not_written_scan_header (fst (feed utc appending [Descriptor det_descriptor]))"
  "\<not> is_baseline_event (fst (feed utc appending [Descriptor det_descriptor])) det_event0"
  "snd (event utc (fst (feed utc appending [Descriptor det_descriptor])) det_event0) = None"
  "open_file appending = Some ''out/run1.spec''"
  "tell (manager appending) ''out/run1.spec'' \<noteq> 0"
  "mgr_log (manager (fst (feed utc appending [Descriptor det_descriptor]))) = []"
  "\<forall>d \<in> set [Descriptor det_descriptor]. \<not> is_start d"
proof -
  show "start (init (MultiFileManager ''out'' (\<lambda>p. ''#F run0.spec'')) default_file_prefix False)
     count_start = (appending, None)"
    by (simp add: appending_def prod_eq_iff start_def init_def default_file_prefix_def
      mgr_open_def MultiFileManager_def Let_def)
  show "snd (feed utc appending [Descriptor det_descriptor]) = None"
    "has_not_written_scan_header (fst (feed utc appending [Descriptor det_descriptor]))"
    "\<not> is_baseline_event (fst (feed utc appending [Descriptor det_descriptor])) det_event0"
    "snd (event utc (fst (feed utc appending [Descriptor det_descriptor])) det_event0) = None"
    "open_file appending = Some ''out/run1.spec''"
    "tell (manager appending) ''out/run1.spec'' \<noteq> 0"
    "mgr_log (manager (fst (feed utc appending [Descriptor det_descriptor]))) = []"
    "\<forall>d \<in> set [Descriptor det_descriptor]. \<not> is_start d"
    by code_simp+
qed

theorem file_header_at_most_once_witness:
  "mgr_log (MultiFileManager ''out'' (\<lambda>p. [])) = []
   \<and> count_kind FileHeaderW
        (mgr_written (manager (fst (feed utc fresh full_run_docs))) ''out/run1.spec'') \<le> 1
   \<and> snd (feed utc appending [Descriptor det_descriptor]) = None
   \<and> has_not_written_scan_header (fst (feed utc appending [Descriptor det_descriptor]))
   \<and> \<not> is_baseline_event (fst (feed utc appending [Descriptor det_descriptor])) det_event0
   \<and> snd (event utc (fst (feed utc appending [Descriptor det_descriptor])) det_event0) = None
   \<and> tell (manager appending) ''out/run1.spec'' \<noteq> 0
   \<and> map (fst \<circ> snd) (mgr_log (manager
         (fst (event utc (fst (feed utc appending [Descriptor det_descriptor])) det_event0))))
       = [ScanHeaderW, DataLineW]"
proof -
  let ?m = "MultiFileManager ''out'' (\<lambda>p. [])"
  let ?m2 = "MultiFileManager ''out'' (\<lambda>p. ''#F run0.spec'')"
  let ?st = "fst (feed utc fresh full_run_docs)"
  let ?st2 = "fst (feed utc appending [Descriptor det_descriptor])"
  let ?st3 = "fst (event utc ?st2 det_event0)"
  note inst = file_header_at_most_once
    [where mgr = ?m and tz = utc and prefix = default_file_prefix and fl = False
       and docs = full_run_docs and st = ?st and r = "snd (feed utc fresh full_run_docs)"
       and p = "''out/run1.spec''"
       and ?mgr2.0 = ?m2 and ?prefix2.0 = default_file_prefix and ?fl2.0 = False
       and s = count_start and ?st1.0 = appending and ?tz2.0 = utc
       and ds = "[Descriptor det_descriptor]" and ?st2.0 = ?st2 and e = det_event0
       and ?st3.0 = ?st3]
  have a: "mgr_log ?m = []" by (simp add: MultiFileManager_def)
  have b: "feed utc (init ?m default_file_prefix False) full_run_docs
             = (?st, snd (feed utc fresh full_run_docs))"
    by (simp add: fresh_def)
  have c: "feed utc appending [Descriptor det_descriptor] = (?st2, None)"
    using appending_run_state(2) by (simp add: prod_eq_iff)
  have d: "event utc ?st2 det_event0 = (?st3, None)"
    using appending_run_state(5) by (simp add: prod_eq_iff)
  from inst a b have one: "count_kind FileHeaderW (mgr_written (manager ?st) ''out/run1.spec'') \<le> 1"
    by blast
  have prem: "start (init ?m2 default_file_prefix False) count_start = (appending, None)
       \<and> feed utc appending [Descriptor det_descriptor] = (?st2, None)
       \<and> (\<forall>d \<in> set [Descriptor det_descriptor]. \<not> is_start d)
       \<and> has_not_written_scan_header ?st2
       \<and> \<not> is_baseline_event ?st2 det_event0 \<and> event utc ?st2 det_event0 = (?st3, None)"
    using appending_run_state(1,3,4,9) c d by simp
  from inst [THEN conjunct2, THEN mp, OF prem]
  obtain path sh line where "open_file appending = Some path"
    "tell (manager appending) path \<noteq> 0 \<longrightarrow>
       mgr_log (manager ?st3) = mgr_log (manager ?st2)
            @ [(path, ScanHeaderW, sh), (path, DataLineW, line @ nl)]"
    by (auto split: if_splits)
  then have "mgr_log (manager ?st3) = [(path, ScanHeaderW, sh), (path, DataLineW, line @ nl)]"
    using appending_run_state(6,7,8) by simp
  then show ?thesis using a one appending_run_state(2,3,4,5,7) by simp
qed

section \<open>The time codec\<close>

subsection \<open>Digits\<close>

lemma digit_cases:
  assumes "a < (10::nat)"
  shows "a \<in> {0, 1, 2, 3, 4, 5, 6, 7, 8, 9}"
  using assms by auto

lemma digit_val_digit_char:
  assumes "a < 10"
  shows "digit_val (digit_char a) = Some (int a)"
  using digit_cases [OF assms]
  by (elim insertE emptyE) (simp_all add: digit_char_def digit_val_def)

lemma digit_char_not_space:
  assumes "a < 10"
  shows "\<not> is_space (digit_char a)"
  using digit_cases [OF assms]
  by (elim insertE emptyE) (simp_all add: digit_char_def is_space_def)

lemma str_digits_one:
  assumes "0 \<le> n" and "n < 10"
  shows "str_digits n = [digit_char (nat n)]"
  using assms by (simp add: str_digits.simps)

lemma str_digits_step:
  assumes "10 \<le> n"
  shows "str_digits n = str_digits (n div 10) @ [digit_char (nat (n mod 10))]"
  using assms by (subst str_digits.simps) simp

lemma pad2_digits:
  assumes "0 \<le> n" and "n < 100"
  shows "pad2 n = [digit_char (nat (n div 10)), digit_char (nat (n mod 10))]"
proof (cases "n < 10")
  case True
  then show ?thesis using assms
    by (simp add: pad2_def zfill_def str_digits_one digit_char_def)
next
  case False
  then have "0 \<le> n div 10" "n div 10 < 10" using assms by auto
  then show ?thesis using False
    by (simp add: pad2_def zfill_def str_digits_step str_digits_one)
qed

lemma year_digits:
  assumes "1000 \<le> y" and "y \<le> 9999"
  shows "zfill 4 (str_digits y) =
     [digit_char (nat (y div 1000)), digit_char (nat (y div 100 mod 10)),
      digit_char (nat (y div 10 mod 10)), digit_char (nat (y mod 10))]"
proof -
  have d3: "str_digits (y div 1000) = [digit_char (nat (y div 1000))]"
    using assms by (intro str_digits_one) auto
  have e2: "y div 100 div 10 = y div 1000" by (simp add: zdiv_zmult2_eq)
  have d2: "str_digits (y div 100) = str_digits (y div 1000) @ [digit_char (nat (y div 100 mod 10))]"
    using assms str_digits_step [of "y div 100"] unfolding e2 by auto
  have e1: "y div 10 div 10 = y div 100" by (simp add: zdiv_zmult2_eq)
  have d1: "str_digits (y div 10) = str_digits (y div 100) @ [digit_char (nat (y div 10 mod 10))]"
    using assms str_digits_step [of "y div 10"] unfolding e1 by auto
  have d0: "str_digits y = str_digits (y div 10) @ [digit_char (nat (y mod 10))]"
    using assms str_digits_step [of y] by auto
  show ?thesis by (simp add: zfill_def d0 d1 d2 d3)
qed

lemma match_num_two_digits:
  assumes "0 \<le> n" and "n < 100"
  shows "match_num lo hi (pad2 n @ rest) = (if lo \<le> n \<and> n \<le> hi then Some (n, rest) else None)"
proof -
  have a: "nat (n div 10) < 10" "nat (n mod 10) < 10" using assms by auto
  have i: "int (nat (n div 10)) = n div 10" "int (nat (n mod 10)) = n mod 10"
    using assms by auto
  have v: "10 * (n div 10) + n mod 10 = n" by simp
  show ?thesis
    by (simp add: pad2_digits [OF assms] digit_val_digit_char [OF a(1)]
      digit_val_digit_char [OF a(2)] i v del: int_nat_eq)
qed

lemma match_year_four_digits:
  assumes "1000 \<le> y" and "y \<le> 9999"
  shows "match_year (zfill 4 (str_digits y)) = Some (y, [])"
proof -
  have a: "nat (y div 1000) < 10" "nat (y div 100 mod 10) < 10" "nat (y div 10 mod 10) < 10"
    "nat (y mod 10) < 10"
    using assms by auto
  have i: "int (nat (y div 1000)) = y div 1000" "int (nat (y div 100 mod 10)) = y div 100 mod 10"
    "int (nat (y div 10 mod 10)) = y div 10 mod 10" "int (nat (y mod 10)) = y mod 10"
    using assms by auto
  have e: "y div 10 div 10 = y div 100" "y div 100 div 10 = y div 1000"
    by (simp_all add: zdiv_zmult2_eq)
  have "y = 10 * (y div 10) + y mod 10" by simp
  moreover have "y div 10 = 10 * (y div 100) + y div 10 mod 10"
    using div_mult_mod_eq [of "y div 10" 10] unfolding e by simp
  moreover have "y div 100 = 10 * (y div 1000) + y div 100 mod 10"
    using div_mult_mod_eq [of "y div 100" 10] unfolding e by simp
  ultimately
  have v: "1000 * (y div 1000) + 100 * (y div 100 mod 10) + 10 * (y div 10 mod 10) + y mod 10 = y"
    by linarith
  show ?thesis
    by (simp add: year_digits [OF assms] match_year_def digit_val_digit_char [OF a(1)]
      digit_val_digit_char [OF a(2)] digit_val_digit_char [OF a(3)]
      digit_val_digit_char [OF a(4)] i v del: int_nat_eq)
qed

subsection \<open>Formatting, then parsing\<close>

lemma index_cases7:
  assumes "i < (7::nat)"
  shows "i \<in> {0, 1, 2, 3, 4, 5, 6}"
  using assms by auto

lemma index_cases12:
  assumes "i < (12::nat)"
  shows "i \<in> {0, 1, 2, 3, 4, 5, 6, 7, 8, 9, 10, 11}"
  using assms by (simp; arith)

lemma month_cases:
  assumes "1 \<le> m" and "m \<le> (12::int)"
  shows "m \<in> {1, 2, 3, 4, 5, 6, 7, 8, 9, 10, 11, 12}"
  using assms by (simp; arith)

lemma match_day_name:
  assumes "i < 7"
  shows "match_name day_abbr (day_abbr ! i @ rest) = Some (int i, rest)"
  using index_cases7 [OF assms]
  by (elim insertE emptyE) (simp_all add: match_name_def day_abbr_def lower_char_def)

lemma match_month_name:
  assumes "i < 12"
  shows "match_name month_abbr (month_abbr ! i @ rest) = Some (int i, rest)"
  using index_cases12 [OF assms]
  by (elim insertE emptyE) (simp_all add: match_name_def month_abbr_def lower_char_def)

lemma month_name_head:
  assumes "i < 12"
  shows "\<exists>c cs. month_abbr ! i = c # cs \<and> \<not> is_space c"
  using index_cases12 [OF assms]
  by (elim insertE emptyE) (simp_all add: month_abbr_def is_space_def)

lemma match_spaces_blank:
  assumes "\<not> is_space c"
  shows "match_spaces ('' '' @ c # rest) = Some (c # rest)"
  using assms by (simp add: match_spaces_def is_space_def)

lemma pad2_head:
  assumes "0 \<le> n" and "n < 100"
  shows "\<exists>c cs. pad2 n = c # cs \<and> \<not> is_space c"
proof -
  have "nat (n div 10) < 10" using assms by auto
  then show ?thesis by (simp add: pad2_digits [OF assms] digit_char_not_space)
qed

lemma year_head:
  assumes "1000 \<le> y" and "y \<le> 9999"
  shows "\<exists>c cs. zfill 4 (str_digits y) = c # cs \<and> \<not> is_space c"
proof -
  have "nat (y div 1000) < 10" using assms by auto
  then show ?thesis by (simp add: year_digits [OF assms] digit_char_not_space)
qed

lemma match_char_colon: "match_char (CHR '':'') ('':'' @ rest) = Some rest"
  by (simp add: match_char_def)

lemma strptime_fields_strftime:
  assumes "valid_datetime dt"
  shows "strptime_fields (to_spec_time dt) =
     Some (dt_year dt, dt_month dt, dt_day dt, dt_hour dt, dt_minute dt, dt_second dt)"
proof -
  let ?w = "nat (weekday dt)" and ?m = "nat (dt_month dt - 1)"
  have v: "1000 \<le> dt_year dt" "dt_year dt \<le> 9999" "1 \<le> dt_month dt" "dt_month dt \<le> 12"
    "1 \<le> dt_day dt" "dt_day dt \<le> days_in_month (dt_year dt) (dt_month dt)"
    "0 \<le> dt_hour dt" "dt_hour dt < 24" "0 \<le> dt_minute dt" "dt_minute dt < 60"
    "0 \<le> dt_second dt" "dt_second dt < 60"
    using assms by (simp_all add: valid_datetime_def)
  have w: "?w < 7" by (simp add: weekday_def)
  have m: "?m < 12" "int ?m + 1 = dt_month dt" using v by auto
  have dim: "days_in_month (dt_year dt) (dt_month dt) \<le> 31"
  proof -
    have "dt_month dt \<in> {1, 2, 3, 4, 5, 6, 7, 8, 9, 10, 11, 12}"
      using v(3,4) by (rule month_cases)
    then show ?thesis
      by (elim insertE emptyE) (simp_all add: days_in_month_def DAYS_IN_MONTH_def)
  qed
  have d: "0 \<le> dt_day dt" "dt_day dt < 100" "dt_day dt \<le> 31" using v dim by auto
  have h: "dt_hour dt < 100" "dt_hour dt \<le> 23" using v by auto
  have mi: "dt_minute dt < 100" "dt_minute dt \<le> 59" using v by auto
  have s: "dt_second dt < 100" "dt_second dt \<le> 61" using v by auto
  obtain mc ms where mh: "month_abbr ! ?m = mc # ms" "\<not> is_space mc"
    using month_name_head [OF m(1)] by blast
  obtain dc ds where dh: "pad2 (dt_day dt) = dc # ds" "\<not> is_space dc"
    using pad2_head [OF d(1,2)] by blast
  obtain hc hs where hh: "pad2 (dt_hour dt) = hc # hs" "\<not> is_space hc"
    using pad2_head [OF v(7) h(1)] by blast
  obtain yc ys where yh: "zfill 4 (str_digits (dt_year dt)) = yc # ys" "\<not> is_space yc"
    using year_head [OF v(1,2)] by blast
  let ?r6 = "zfill 4 (str_digits (dt_year dt))"
  let ?r5 = "pad2 (dt_second dt) @ '' '' @ ?r6"
  let ?r4 = "pad2 (dt_minute dt) @ '':'' @ ?r5"
  let ?r3 = "pad2 (dt_hour dt) @ '':'' @ ?r4"
  let ?r2 = "pad2 (dt_day dt) @ '' '' @ ?r3"
  let ?r1 = "month_abbr ! ?m @ '' '' @ ?r2"
  have t: "to_spec_time dt = day_abbr ! ?w @ '' '' @ ?r1"
    by (simp add: to_spec_time_def)
  have s1: "match_name day_abbr (to_spec_time dt) = Some (int ?w, '' '' @ ?r1)"
    unfolding t by (rule match_day_name [OF w])
  have s2: "match_spaces ('' '' @ ?r1) = Some ?r1"
    using match_spaces_blank [OF mh(2), of "ms @ '' '' @ ?r2"] by (simp add: mh(1))
  have s3: "match_name month_abbr ?r1 = Some (int ?m, '' '' @ ?r2)"
    by (rule match_month_name [OF m(1)])
  have s4: "match_spaces ('' '' @ ?r2) = Some ?r2"
    using match_spaces_blank [OF dh(2), of "ds @ '' '' @ ?r3"] by (simp add: dh(1))
  have s5: "match_num 1 31 ?r2 = Some (dt_day dt, '' '' @ ?r3)"
    using match_num_two_digits [OF d(1,2), of 1 31 "'' '' @ ?r3"] v(5) d(3) by simp
  have s6: "match_spaces ('' '' @ ?r3) = Some ?r3"
    using match_spaces_blank [OF hh(2), of "hs @ '':'' @ ?r4"] by (simp add: hh(1))
  have s7: "match_num 0 23 ?r3 = Some (dt_hour dt, '':'' @ ?r4)"
    using match_num_two_digits [OF v(7) h(1), of 0 23 "'':'' @ ?r4"] v(7) h(2) by simp
  have s8: "match_char (CHR '':'') ('':'' @ ?r4) = Some ?r4"
    by (rule match_char_colon)
  have s9: "match_num 0 59 ?r4 = Some (dt_minute dt, '':'' @ ?r5)"
    using match_num_two_digits [OF v(9) mi(1), of 0 59 "'':'' @ ?r5"] v(9) mi(2) by simp
  have s10: "match_char (CHR '':'') ('':'' @ ?r5) = Some ?r5"
    by (rule match_char_colon)
  have s11: "match_num 0 61 ?r5 = Some (dt_second dt, '' '' @ ?r6)"
    using match_num_two_digits [OF v(11) s(1), of 0 61 "'' '' @ ?r6"] v(11) s(2) by simp
  have s12: "match_spaces ('' '' @ ?r6) = Some ?r6"
    using match_spaces_blank [OF yh(2), of ys] by (simp add: yh(1))
  have s13: "match_year ?r6 = Some (dt_year dt, [])"
    by (rule match_year_four_digits [OF v(1,2)])
  show ?thesis
    unfolding strptime_fields_def
    by (simp only: s1 s2 s3 s4 s5 s6 s7 s8 s9 s10 s11 s12 s13 opt_bind_def option.case
      prod.case m(2) simp_thms if_True)
qed

lemma time_codec_roundtrip:
  assumes "valid_datetime dt"
  shows "from_spec_time (to_spec_time dt) = Inr dt"
  using assms
  by (simp add: from_spec_time_def strptime_fields_strftime valid_datetime_def)

subsection \<open>The calendar\<close>

lemma month_day_valid:
  assumes "0 \<le> r" and "r < 365"
    and "month = (r + 50) div 32"
    and "preceding = DAYS_BEFORE_MONTH ! nat month + (if month > 2 \<and> leap then 1 else 0)"
    and "(m, d) =
      (if preceding > r
       then (month - 1,
             r - (preceding - (DAYS_IN_MONTH ! nat (month - 1)
                               + (if month - 1 = 2 \<and> leap then 1 else 0))) + 1)
       else (month, r - preceding + 1))"
  shows "1 \<le> m \<and> m \<le> 12 \<and> 1 \<le> d
       \<and> d \<le> (if m = 2 \<and> leap then 29 else DAYS_IN_MONTH ! nat m)"
proof -
  have "1 \<le> month" "month \<le> 12" using assms(1,2,3) by auto
  then have "month \<in> {1, 2, 3, 4, 5, 6, 7, 8, 9, 10, 11, 12}" by (rule month_cases)
  then show ?thesis
  proof (elim insertE emptyE)
    assume k: "month = 1"
    then have "32 \<le> r + 50" "r + 50 < 64" using assms(3) by auto
    then show ?thesis using assms(1,2,4,5) k
      by (auto simp: DAYS_BEFORE_MONTH_def DAYS_IN_MONTH_def split: if_splits)
  next
    assume k: "month = 2"
    then have "64 \<le> r + 50" "r + 50 < 96" using assms(3) by auto
    then show ?thesis using assms(1,2,4,5) k
      by (auto simp: DAYS_BEFORE_MONTH_def DAYS_IN_MONTH_def split: if_splits)
  next
    assume k: "month = 3"
    then have "96 \<le> r + 50" "r + 50 < 128" using assms(3) by auto
    then show ?thesis using assms(1,2,4,5) k
      by (auto simp: DAYS_BEFORE_MONTH_def DAYS_IN_MONTH_def split: if_splits)
  next
    assume k: "month = 4"
    then have "128 \<le> r + 50" "r + 50 < 160" using assms(3) by auto
    then show ?thesis using assms(1,2,4,5) k
      by (auto simp: DAYS_BEFORE_MONTH_def DAYS_IN_MONTH_def split: if_splits)
  next
    assume k: "month = 5"
    then have "160 \<le> r + 50" "r + 50 < 192" using assms(3) by auto
    then show ?thesis using assms(1,2,4,5) k
      by (auto simp: DAYS_BEFORE_MONTH_def DAYS_IN_MONTH_def split: if_splits)
  next
    assume k: "month = 6"
    then have "192 \<le> r + 50" "r + 50 < 224" using assms(3) by auto
    then show ?thesis using assms(1,2,4,5) k
      by (auto simp: DAYS_BEFORE_MONTH_def DAYS_IN_MONTH_def split: if_splits)
  next
    assume k: "month = 7"
    then have "224 \<le> r + 50" "r + 50 < 256" using assms(3) by auto
    then show ?thesis using assms(1,2,4,5) k
      by (auto simp: DAYS_BEFORE_MONTH_def DAYS_IN_MONTH_def split: if_splits)
  next
    assume k: "month = 8"
    then have "256 \<le> r + 50" "r + 50 < 288" using assms(3) by auto
    then show ?thesis using assms(1,2,4,5) k
      by (auto simp: DAYS_BEFORE_MONTH_def DAYS_IN_MONTH_def split: if_splits)
  next
    assume k: "month = 9"
    then have "288 \<le> r + 50" "r + 50 < 320" using assms(3) by auto
    then show ?thesis using assms(1,2,4,5) k
      by (auto simp: DAYS_BEFORE_MONTH_def DAYS_IN_MONTH_def split: if_splits)
  next
    assume k: "month = 10"
    then have "320 \<le> r + 50" "r + 50 < 352" using assms(3) by auto
    then show ?thesis using assms(1,2,4,5) k
      by (auto simp: DAYS_BEFORE_MONTH_def DAYS_IN_MONTH_def split: if_splits)
  next
    assume k: "month = 11"
    then have "352 \<le> r + 50" "r + 50 < 384" using assms(3) by auto
    then show ?thesis using assms(1,2,4,5) k
      by (auto simp: DAYS_BEFORE_MONTH_def DAYS_IN_MONTH_def split: if_splits)
  next
    assume k: "month = 12"
    then have "384 \<le> r + 50" using assms(3) by auto
    then show ?thesis using assms(1,2,4,5) k
      by (auto simp: DAYS_BEFORE_MONTH_def DAYS_IN_MONTH_def split: if_splits)
  qed
qed

lemma leap_year_of_cycle:
  assumes "0 \<le> b" "b \<le> 3" "0 \<le> c" "c \<le> 24" "0 \<le> e" "e \<le> (3::int)"
  shows "is_leap (a * 400 + 1 + b * 100 + c * 4 + e) \<longleftrightarrow> e = 3 \<and> (c \<noteq> 24 \<or> b = 3)"
proof -
  let ?y = "a * 400 + 1 + b * 100 + c * 4 + e"
  have "?y = (e + 1) + (a * 100 + b * 25 + c) * 4" by simp
  then have m4: "?y mod 4 = (e + 1) mod 4" by (simp only: mod_mult_self1)
  have "?y = (c * 4 + e + 1) + (a * 4 + b) * 100" by simp
  then have m100: "?y mod 100 = (c * 4 + e + 1) mod 100" by (simp only: mod_mult_self1)
  have "?y = (b * 100 + c * 4 + e + 1) + a * 400" by simp
  then have m400: "?y mod 400 = (b * 100 + c * 4 + e + 1) mod 400" by (simp only: mod_mult_self1)
  have r4: "0 \<le> e + 1" "e + 1 \<le> 4" "(0::int) < 4" using assms by auto
  have r100: "0 \<le> c * 4 + e + 1" "c * 4 + e + 1 \<le> 100" "(0::int) < 100"
    using assms by auto
  have r400: "0 \<le> b * 100 + c * 4 + e + 1" "b * 100 + c * 4 + e + 1 \<le> 400" "(0::int) < 400"
    using assms by auto
  have full: "\<And>x k :: int. 0 \<le> x \<Longrightarrow> x \<le> k \<Longrightarrow> 0 < k \<Longrightarrow> (x mod k = 0) = (x = 0 \<or> x = k)"
  proof -
    fix x k :: int assume a: "0 \<le> x" "x \<le> k" "0 < k"
    show "x mod k = 0 \<longleftrightarrow> x = 0 \<or> x = k"
    proof (cases "x = k")
      case True
      then show ?thesis by simp
    next
      case False
      then have "x < k" using a by simp
      then show ?thesis using a by (simp add: mod_pos_pos_trivial)
    qed
  qed
  have 1: "?y mod 4 = 0 \<longleftrightarrow> e = 3"
    unfolding m4 full [OF r4] using assms by arith
  have 2: "?y mod 100 = 0 \<longleftrightarrow> c = 24 \<and> e = 3"
    unfolding m100 full [OF r100] using assms by arith
  have 3: "?y mod 400 = 0 \<longleftrightarrow> b = 3 \<and> c = 24 \<and> e = 3"
    unfolding m400 full [OF r400] using assms by arith
  show ?thesis unfolding is_leap_def 1 2 3 by auto
qed

lemma month_day_ordinal:
  assumes "0 \<le> r" and "r < 365"
    and "month = (r + 50) div 32"
    and "preceding = DAYS_BEFORE_MONTH ! nat month + (if month > 2 \<and> leap then 1 else 0)"
    and "(m, d) =
      (if preceding > r
       then (month - 1,
             r - (preceding - (DAYS_IN_MONTH ! nat (month - 1)
                               + (if month - 1 = 2 \<and> leap then 1 else 0))) + 1)
       else (month, r - preceding + 1))"
  shows "DAYS_BEFORE_MONTH ! nat m + (if m > 2 \<and> leap then 1 else 0) + d = r + 1"
proof -
  have "1 \<le> month" "month \<le> 12" using assms(1,2,3) by auto
  then have "month \<in> {1, 2, 3, 4, 5, 6, 7, 8, 9, 10, 11, 12}" by (rule month_cases)
  then show ?thesis
  proof (elim insertE emptyE)
    assume k: "month = 1"
    then have "32 \<le> r + 50" "r + 50 < 64" using assms(3) by auto
    then show ?thesis using assms(1,2,4,5) k
      by (auto simp: DAYS_BEFORE_MONTH_def DAYS_IN_MONTH_def split: if_splits)
  next
    assume k: "month = 2"
    then have "64 \<le> r + 50" "r + 50 < 96" using assms(3) by auto
    then show ?thesis using assms(1,2,4,5) k
      by (auto simp: DAYS_BEFORE_MONTH_def DAYS_IN_MONTH_def split: if_splits)
  next
    assume k: "month = 3"
    then have "96 \<le> r + 50" "r + 50 < 128" using assms(3) by auto
    then show ?thesis using assms(1,2,4,5) k
      by (auto simp: DAYS_BEFORE_MONTH_def DAYS_IN_MONTH_def split: if_splits)
  next
    assume k: "month = 4"
    then have "128 \<le> r + 50" "r + 50 < 160" using assms(3) by auto
    then show ?thesis using assms(1,2,4,5) k
      by (auto simp: DAYS_BEFORE_MONTH_def DAYS_IN_MONTH_def split: if_splits)
  next
    assume k: "month = 5"
    then have "160 \<le> r + 50" "r + 50 < 192" using assms(3) by auto
    then show ?thesis using assms(1,2,4,5) k
      by (auto simp: DAYS_BEFORE_MONTH_def DAYS_IN_MONTH_def split: if_splits)
  next
    assume k: "month = 6"
    then have "192 \<le> r + 50" "r + 50 < 224" using assms(3) by auto
    then show ?thesis using assms(1,2,4,5) k
      by (auto simp: DAYS_BEFORE_MONTH_def DAYS_IN_MONTH_def split: if_splits)
  next
    assume k: "month = 7"
    then have "224 \<le> r + 50" "r + 50 < 256" using assms(3) by auto
    then show ?thesis using assms(1,2,4,5) k
      by (auto simp: DAYS_BEFORE_MONTH_def DAYS_IN_MONTH_def split: if_splits)
  next
    assume k: "month = 8"
    then have "256 \<le> r + 50" "r + 50 < 288" using assms(3) by auto
    then show ?thesis using assms(1,2,4,5) k
      by (auto simp: DAYS_BEFORE_MONTH_def DAYS_IN_MONTH_def split: if_splits)
  next
    assume k: "month = 9"
    then have "288 \<le> r + 50" "r + 50 < 320" using assms(3) by auto
    then show ?thesis using assms(1,2,4,5) k
      by (auto simp: DAYS_BEFORE_MONTH_def DAYS_IN_MONTH_def split: if_splits)
  next
    assume k: "month = 10"
    then have "320 \<le> r + 50" "r + 50 < 352" using assms(3) by auto
    then show ?thesis using assms(1,2,4,5) k
      by (auto simp: DAYS_BEFORE_MONTH_def DAYS_IN_MONTH_def split: if_splits)
  next
    assume k: "month = 11"
    then have "352 \<le> r + 50" "r + 50 < 384" using assms(3) by auto
    then show ?thesis using assms(1,2,4,5) k
      by (auto simp: DAYS_BEFORE_MONTH_def DAYS_IN_MONTH_def split: if_splits)
  next
    assume k: "month = 12"
    then have "384 \<le> r + 50" using assms(3) by auto
    then show ?thesis using assms(1,2,4,5) k
      by (auto simp: DAYS_BEFORE_MONTH_def DAYS_IN_MONTH_def split: if_splits)
  qed
qed

lemma ord2ymd_valid:
  assumes "ord2ymd n = (y, m, d)"
  shows "1 \<le> m \<and> m \<le> 12 \<and> 1 \<le> d \<and> d \<le> days_in_month y m"
proof -
  define r400 where "r400 = (n - 1) mod 146097"
  define n400 where "n400 = (n - 1) div 146097"
  define n100 where "n100 = r400 div 36524"
  define r100 where "r100 = r400 mod 36524"
  define n4 where "n4 = r100 div 1461"
  define r4 where "r4 = r100 mod 1461"
  define n1 where "n1 = r4 div 365"
  define r1 where "r1 = r4 mod 365"
  define year where "year = n400 * 400 + 1 + n100 * 100 + n4 * 4 + n1"
  define leap where "leap = (n1 = 3 \<and> (n4 \<noteq> 24 \<or> n100 = 3))"
  define month where "month = (r1 + 50) div 32"
  define preceding
    where "preceding = DAYS_BEFORE_MONTH ! nat month + (if month > 2 \<and> leap then 1 else 0)"
  have b400: "0 \<le> r400" "r400 < 146097" by (simp_all add: r400_def)
  have b100: "0 \<le> n100" "n100 \<le> 4" "0 \<le> r100" "r100 < 36524"
    using b400 by (auto simp: n100_def r100_def)
  have b4: "0 \<le> n4" "n4 \<le> 24" "0 \<le> r4" "r4 < 1461"
    using b100 by (auto simp: n4_def r4_def)
  have b1: "0 \<le> n1" "n1 \<le> 4" "0 \<le> r1" "r1 < 365"
    using b4 by (auto simp: n1_def r1_def)
  have eq: "(y, m, d) =
      (if n1 = 4 \<or> n100 = 4 then (year - 1, 12, 31)
       else if preceding > r1
       then (year, month - 1,
             r1 - (preceding - (DAYS_IN_MONTH ! nat (month - 1)
                                + (if month - 1 = 2 \<and> leap then 1 else 0))) + 1)
       else (year, month, r1 - preceding + 1))"
    using assms
    unfolding ord2ymd_def Let_def r400_def n400_def n100_def r100_def n4_def r4_def n1_def
      r1_def year_def leap_def month_def preceding_def
    by (simp split: if_splits)
  show ?thesis
  proof (cases "n1 = 4 \<or> n100 = 4")
    case True
    then have "y = year - 1" "m = 12" "d = 31" using eq by simp_all
    then show ?thesis by (simp add: days_in_month_def DAYS_IN_MONTH_def)
  next
    case False
    then have s: "n1 \<le> 3" "n100 \<le> 3" using b1 b100 by auto
    have yy: "y = year" using eq False by (simp split: if_splits)
    have md: "(m, d) =
      (if preceding > r1
       then (month - 1,
             r1 - (preceding - (DAYS_IN_MONTH ! nat (month - 1)
                                + (if month - 1 = 2 \<and> leap then 1 else 0))) + 1)
       else (month, r1 - preceding + 1))"
      using eq False by (simp split: if_splits)
    have lp: "is_leap y = leap"
      unfolding yy year_def leap_def
      by (rule leap_year_of_cycle [OF b100(1) s(2) b4(1,2) b1(1) s(1)])
    from month_day_valid [OF b1(3,4) month_def preceding_def md]
    show ?thesis by (simp add: days_in_month_def lp)
  qed
qed

lemma fromtimestamp_valid:
  assumes "fromtimestamp tz t = Inr dt" and "1000 \<le> dt_year dt"
  shows "valid_datetime dt"
proof -
  define s where "s = t + tz t"
  define r where "r = s mod 86400"
  obtain y m d where ymd: "ord2ymd (s div 86400 + 719163) = (y, m, d)"
    by (cases "ord2ymd (s div 86400 + 719163)") auto
  have dt: "dt = \<lparr> dt_year = y, dt_month = m, dt_day = d, dt_hour = r div 3600,
                    dt_minute = (r mod 3600) div 60, dt_second = r mod 60,
                    dt_microsecond = 0 \<rparr>"
    and yr: "1 \<le> y" "y \<le> 9999"
    using assms(1) ymd
    by (auto simp: fromtimestamp_def Let_def s_def r_def split: if_splits)
  have r: "0 \<le> r" "r < 86400" by (simp_all add: r_def)
  have h: "0 \<le> r div 3600" "r div 3600 < 24" using r by auto
  have mi: "0 \<le> (r mod 3600) div 60" "(r mod 3600) div 60 < 60" by auto
  have se: "0 \<le> r mod 60" "r mod 60 < 60" by auto
  show ?thesis
    using ord2ymd_valid [OF ymd] yr assms(2) h mi se
    unfolding dt valid_datetime_def by simp
qed

lemma days_before_year_of_cycle:
  assumes "0 \<le> b" "b \<le> 3" "0 \<le> c" "c \<le> 24" "0 \<le> e" "e \<le> (3::int)"
  shows "days_before_year (a * 400 + 1 + b * 100 + c * 4 + e)
           = a * 146097 + b * 36524 + c * 1461 + e * 365"
proof -
  let ?z = "a * 400 + b * 100 + c * 4 + e"
  have "?z = e + (a * 100 + b * 25 + c) * 4" by simp
  then have "?z div 4 = e div 4 + (a * 100 + b * 25 + c)" by (simp only: div_mult_self1)
  then have d4: "?z div 4 = a * 100 + b * 25 + c" using assms by simp
  have "?z = (c * 4 + e) + (a * 4 + b) * 100" by simp
  then have "?z div 100 = (c * 4 + e) div 100 + (a * 4 + b)" by (simp only: div_mult_self1)
  moreover have "(c * 4 + e) div 100 = 0" using assms by simp
  ultimately have d100: "?z div 100 = a * 4 + b" by simp
  have "?z = (b * 100 + c * 4 + e) + a * 400" by simp
  then have "?z div 400 = (b * 100 + c * 4 + e) div 400 + a" by (simp only: div_mult_self1)
  moreover have "(b * 100 + c * 4 + e) div 400 = 0" using assms by simp
  ultimately have d400: "?z div 400 = a" by simp
  have z: "a * 400 + 1 + b * 100 + c * 4 + e - 1 = ?z" by simp
  show ?thesis unfolding days_before_year_def Let_def z d4 d100 d400 by simp
qed

lemma ord2ymd_ordinal:
  assumes "ord2ymd n = (y, m, d)"
  shows "ymd2ord y m d = n"
proof -
  define r400 where "r400 = (n - 1) mod 146097"
  define n400 where "n400 = (n - 1) div 146097"
  define n100 where "n100 = r400 div 36524"
  define r100 where "r100 = r400 mod 36524"
  define n4 where "n4 = r100 div 1461"
  define r4 where "r4 = r100 mod 1461"
  define n1 where "n1 = r4 div 365"
  define r1 where "r1 = r4 mod 365"
  define year where "year = n400 * 400 + 1 + n100 * 100 + n4 * 4 + n1"
  define leap where "leap = (n1 = 3 \<and> (n4 \<noteq> 24 \<or> n100 = 3))"
  define month where "month = (r1 + 50) div 32"
  define preceding
    where "preceding = DAYS_BEFORE_MONTH ! nat month + (if month > 2 \<and> leap then 1 else 0)"
  have b400: "0 \<le> r400" "r400 < 146097" by (simp_all add: r400_def)
  have b100: "0 \<le> n100" "n100 \<le> 4" "0 \<le> r100" "r100 < 36524"
    using b400 by (auto simp: n100_def r100_def)
  have b4: "0 \<le> n4" "n4 \<le> 24" "0 \<le> r4" "r4 < 1461"
    using b100 by (auto simp: n4_def r4_def)
  have b1: "0 \<le> n1" "n1 \<le> 4" "0 \<le> r1" "r1 < 365"
    using b4 by (auto simp: n1_def r1_def)
  have e400: "n - 1 = n400 * 146097 + r400"
    unfolding n400_def r400_def by simp
  have e100: "r400 = n100 * 36524 + r100"
    unfolding n100_def r100_def by simp
  have e4: "r100 = n4 * 1461 + r4"
    unfolding n4_def r4_def by simp
  have e1: "r4 = n1 * 365 + r1"
    unfolding n1_def r1_def by simp
  have total: "n = n400 * 146097 + n100 * 36524 + n4 * 1461 + n1 * 365 + r1 + 1"
    using e400 e100 e4 e1 by linarith
  have eq: "(y, m, d) =
      (if n1 = 4 \<or> n100 = 4 then (year - 1, 12, 31)
       else if preceding > r1
       then (year, month - 1,
             r1 - (preceding - (DAYS_IN_MONTH ! nat (month - 1)
                                + (if month - 1 = 2 \<and> leap then 1 else 0))) + 1)
       else (year, month, r1 - preceding + 1))"
    using assms
    unfolding ord2ymd_def Let_def r400_def n400_def n100_def r100_def n4_def r4_def n1_def
      r1_def year_def leap_def month_def preceding_def
    by (simp split: if_splits)
  consider (century) "n100 = 4" | (year4) "n100 \<noteq> 4" "n1 = 4" | (plain) "n100 \<noteq> 4" "n1 \<noteq> 4"
    by blast
  then show ?thesis
  proof cases
    case century
    have z: "r100 = 0" "n4 = 0" "r4 = 0" "n1 = 0" "r1 = 0"
    proof -
      show "r100 = 0" using e100 b400 b100 century by linarith
      then show "n4 = 0" "r4 = 0" by (simp_all add: n4_def r4_def)
      then show "n1 = 0" "r1 = 0" by (simp_all add: n1_def r1_def)
    qed
    have ymd: "y = n400 * 400 + 1 + 3 * 100 + 24 * 4 + 3" "m = 12" "d = 31"
      using eq century z by (simp_all add: year_def)
    have lp: "is_leap y"
      unfolding ymd(1) by (subst leap_year_of_cycle) simp_all
    have dby: "days_before_year y = n400 * 146097 + 3 * 36524 + 24 * 1461 + 3 * 365"
      unfolding ymd(1) by (subst days_before_year_of_cycle) simp_all
    show ?thesis
      using total century z lp dby
      by (simp add: ymd2ord_def ymd(2,3) days_before_month_def DAYS_BEFORE_MONTH_def)
  next
    case year4
    have z: "r1 = 0" using e1 b4 b1 year4 by linarith
    have c23: "n4 \<le> 23" using e4 e1 b100 b1 year4 by linarith
    have s: "n100 \<le> 3" using b100 year4 by simp
    have ymd: "y = n400 * 400 + 1 + n100 * 100 + n4 * 4 + 3" "m = 12" "d = 31"
      using eq year4 by (simp_all add: year_def)
    have c24: "n4 \<le> 24" "n4 \<noteq> 24" using c23 by simp_all
    have lp: "is_leap y"
      unfolding ymd(1) using leap_year_of_cycle [OF b100(1) s b4(1) c24(1), of 3 n400] c24(2)
      by simp
    have dby: "days_before_year y = n400 * 146097 + n100 * 36524 + n4 * 1461 + 3 * 365"
      unfolding ymd(1) using days_before_year_of_cycle [OF b100(1) s b4(1) c24(1), of 3 n400]
      by simp
    show ?thesis
      using total year4 z lp dby
      by (simp add: ymd2ord_def ymd(2,3) days_before_month_def DAYS_BEFORE_MONTH_def)
  next
    case plain
    then have s: "n1 \<le> 3" "n100 \<le> 3" using b1 b100 by auto
    have yy: "y = year" using eq plain by (simp split: if_splits)
    have md: "(m, d) =
      (if preceding > r1
       then (month - 1,
             r1 - (preceding - (DAYS_IN_MONTH ! nat (month - 1)
                                + (if month - 1 = 2 \<and> leap then 1 else 0))) + 1)
       else (month, r1 - preceding + 1))"
      using eq plain by (simp split: if_splits)
    have lp: "is_leap y = leap"
      unfolding yy year_def leap_def
      by (rule leap_year_of_cycle [OF b100(1) s(2) b4(1,2) b1(1) s(1)])
    have dby: "days_before_year y = n400 * 146097 + n100 * 36524 + n4 * 1461 + n1 * 365"
      unfolding yy year_def
      by (rule days_before_year_of_cycle [OF b100(1) s(2) b4(1,2) b1(1) s(1)])
    from month_day_ordinal [OF b1(3,4) month_def preceding_def md]
    have "days_before_month y m + d = r1 + 1"
      by (simp add: days_before_month_def lp)
    then show ?thesis using total dby by (simp add: ymd2ord_def)
  qed
qed

lemma fromtimestamp_seconds:
  assumes "fromtimestamp tz t = Inr dt"
  shows "(ymd2ord (dt_year dt) (dt_month dt) (dt_day dt) - 719163) * 86400
           + dt_hour dt * 3600 + dt_minute dt * 60 + dt_second dt = t + tz t"
proof -
  define s where "s = t + tz t"
  define r where "r = s mod 86400"
  obtain y m d where ymd: "ord2ymd (s div 86400 + 719163) = (y, m, d)"
    by (cases "ord2ymd (s div 86400 + 719163)") auto
  have dt: "dt = \<lparr> dt_year = y, dt_month = m, dt_day = d, dt_hour = r div 3600,
                    dt_minute = (r mod 3600) div 60, dt_second = r mod 60,
                    dt_microsecond = 0 \<rparr>"
    using assms ymd
    by (auto simp: fromtimestamp_def Let_def s_def r_def split: if_splits)
  have ord: "ymd2ord y m d = s div 86400 + 719163"
    by (rule ord2ymd_ordinal [OF ymd])
  have "r mod 3600 = (r mod 3600) div 60 * 60 + (r mod 3600) mod 60" by simp
  moreover have "(r mod 3600) mod 60 = r mod 60"
    by (simp add: mod_mod_cancel)
  moreover have "r = r div 3600 * 3600 + r mod 3600" by simp
  ultimately have hms: "r div 3600 * 3600 + (r mod 3600) div 60 * 60 + r mod 60 = r"
    by linarith
  have "s = s div 86400 * 86400 + r" unfolding r_def by simp
  then show ?thesis
    unfolding dt using ord hms by (simp add: s_def)
qed

lemma same_text_same_instant:
  assumes "fromtimestamp tz t = Inr dt" and "1000 \<le> dt_year dt"
    and "fromtimestamp tz t' = Inr dt'" and "1000 \<le> dt_year dt'"
    and "to_spec_time dt' = to_spec_time dt" and "tz t' = tz t"
  shows "t' = t"
proof -
  have "from_spec_time (to_spec_time dt) = Inr dt"
    by (rule time_codec_roundtrip [OF fromtimestamp_valid [OF assms(1,2)]])
  moreover have "from_spec_time (to_spec_time dt') = Inr dt'"
    by (rule time_codec_roundtrip [OF fromtimestamp_valid [OF assms(3,4)]])
  ultimately have "dt' = dt" using assms(5) by simp
  then show ?thesis
    using fromtimestamp_seconds [OF assms(1)] fromtimestamp_seconds [OF assms(3)] assms(6)
    by simp
qed

text \<open>
  C5 (as the code has it). The codec works on \<open>datetime\<close> objects, and the module formats
  an epoch time \<open>t\<close> as \<open>to_spec_time(datetime.fromtimestamp(t))\<close>. For every whole-second
  \<open>t\<close> that \<open>datetime.fromtimestamp\<close> turns into a \<open>datetime\<close> with a four-digit year,
  whatever the local zone, parsing the text that formatting produces gives that
  \<open>datetime\<close> back, field for field. The text carries no offset from UTC: it tells \<open>t\<close>
  apart from every other instant at which the zone has the same offset, and from no
  more. (Below the year 1000 the C libraries differ on the digits of \<open>%Y\<close>; outside
  1..9999 there is no \<open>datetime\<close>.)
\<close>

theorem time_roundtrip:
  assumes "fromtimestamp tz t = Inr dt" and "1000 \<le> dt_year dt"
  shows "from_spec_time (to_spec_time dt) = Inr dt
       \<and> (\<forall>t' dt'. fromtimestamp tz t' = Inr dt' \<and> 1000 \<le> dt_year dt'
                    \<and> to_spec_time dt' = to_spec_time dt \<and> tz t' = tz t \<longrightarrow> t' = t)"
  using time_codec_roundtrip [OF fromtimestamp_valid [OF assms]]
    same_text_same_instant [OF assms]
  by blast

theorem time_roundtrip_witness:
  "fromtimestamp utc 1000000000
     = Inr \<lparr> dt_year = 2001, dt_month = 9, dt_day = 9, dt_hour = 1, dt_minute = 46,
             dt_second = 40, dt_microsecond = 0 \<rparr>
   \<and> to_spec_time \<lparr> dt_year = 2001, dt_month = 9, dt_day = 9, dt_hour = 1, dt_minute = 46,
                    dt_second = 40, dt_microsecond = 0 \<rparr> = ''Sun Sep 09 01:46:40 2001''
   \<and> from_spec_time ''Sun Sep 09 01:46:40 2001''
     = Inr \<lparr> dt_year = 2001, dt_month = 9, dt_day = 9, dt_hour = 1, dt_minute = 46,
             dt_second = 40, dt_microsecond = 0 \<rparr>"
proof -
  let ?dt = "\<lparr> dt_year = 2001, dt_month = 9, dt_day = 9, dt_hour = 1, dt_minute = 46,
               dt_second = 40, dt_microsecond = 0 \<rparr>"
  have a: "fromtimestamp utc 1000000000 = Inr ?dt" by code_simp
  have b: "to_spec_time ?dt = ''Sun Sep 09 01:46:40 2001''" by code_simp
  have c: "1000 \<le> dt_year ?dt" by simp
  from time_roundtrip [OF a c] show ?thesis using a b by simp
qed

text \<open>
  C5 (as the claim states it) fails: parsing cannot give \<open>t\<close> back for every \<open>t\<close>. In a
  zone that puts its clocks back, the hour before the change and the hour after it read the
  same on the clock: 05:00 UTC and 06:00 UTC on 28 October 2001 are two instants, an hour
  apart, with one \<open>datetime\<close> and one text, and the text is parsed to that \<open>datetime\<close>.
\<close>

theorem repeated_hour_has_one_text:
  "fromtimestamp eastern 1004245200
     = Inr \<lparr> dt_year = 2001, dt_month = 10, dt_day = 28, dt_hour = 1, dt_minute = 0,
             dt_second = 0, dt_microsecond = 0 \<rparr>
   \<and> fromtimestamp eastern 1004248800
     = Inr \<lparr> dt_year = 2001, dt_month = 10, dt_day = 28, dt_hour = 1, dt_minute = 0,
             dt_second = 0, dt_microsecond = 0 \<rparr>
   \<and> to_spec_time \<lparr> dt_year = 2001, dt_month = 10, dt_day = 28, dt_hour = 1, dt_minute = 0,
                    dt_second = 0, dt_microsecond = 0 \<rparr> = ''Sun Oct 28 01:00:00 2001''
   \<and> from_spec_time ''Sun Oct 28 01:00:00 2001''
     = Inr \<lparr> dt_year = 2001, dt_month = 10, dt_day = 28, dt_hour = 1, dt_minute = 0,
             dt_second = 0, dt_microsecond = 0 \<rparr>
   \<and> (1004245200 :: int) \<noteq> 1004248800"
  by code_simp

end
